theory Spec2Isabelle
  imports Complex_Main
begin

section \<open>Python values and exceptions\<close>

text \<open>
  The values that \<^verbatim>\<open>json.load\<close> produces and that the handlers store in their
  dictionaries: \<^verbatim>\<open>None\<close>, booleans, integers, floats, strings, lists and dictionaries.
  A Python \<^verbatim>\<open>dict\<close> keeps its keys in insertion order and holds every key once, so it is
  an association list whose keys are distinct.  The float type is a parameter: no
  arithmetic is done on floats, they are only produced by the builtin \<^verbatim>\<open>float\<close> and
  stored.
\<close>

datatype 'f json =
    JNull
  | JBool bool
  | JInt int
  | JFloat 'f
  | JStr string
  | JList "'f json list"
  | JObj "(string \<times> 'f json) list"

text \<open>
  The exceptions that the modelled code and its collaborators raise.
  \<open>SchemaFormatError\<close> is the error kind that the specification names for a malformed
  schema; no statement of the source raises it.
\<close>

datatype py_exception =
    AttributeError
  | TypeError
  | KeyError
  | ValueError
  | OverflowError
  | FileNotFoundError
  | PermissionError
  | IsADirectoryError
  | JSONDecodeError
  | SchemaFormatError

type_synonym 'v pydict = "(string \<times> 'v) list"

text \<open>\<^verbatim>\<open>k in d\<close>\<close>

definition dict_contains :: "'v pydict \<Rightarrow> string \<Rightarrow> bool" where
  "dict_contains d k = (k \<in> set (map fst d))"

text \<open>\<^verbatim>\<open>d[k] = v\<close>: an existing key keeps its position, a new key goes to the end.\<close>

fun dict_set :: "string \<Rightarrow> 'v \<Rightarrow> 'v pydict \<Rightarrow> 'v pydict" where
  "dict_set k v [] = [(k, v)]"
| "dict_set k v ((k', v') # d) =
     (if k = k' then (k, v) # d else (k', v') # dict_set k v d)"

section \<open>Reading the schema\<close>

text \<open>
  \<^verbatim>\<open>schema.get("properties", {})\<close>: only a dictionary has the method \<^verbatim>\<open>get\<close>; on any
  other value the attribute lookup raises \<^verbatim>\<open>AttributeError\<close>.
\<close>

definition get_properties :: "'f json \<Rightarrow> py_exception + 'f json" where
  "get_properties schema =
     (case schema of
        JObj kv \<Rightarrow> (case map_of kv ''properties'' of Some v \<Rightarrow> Inr v | None \<Rightarrow> Inr (JObj []))
      | _ \<Rightarrow> Inl AttributeError)"

text \<open>\<^verbatim>\<open>properties.items()\<close>: again a method of dictionaries only.\<close>

definition items :: "'f json \<Rightarrow> py_exception + (string \<times> 'f json) list" where
  "items v = (case v of JObj kv \<Rightarrow> Inr kv | _ \<Rightarrow> Inl AttributeError)"

text \<open>\<^verbatim>\<open>schema.get("properties", {}).items()\<close>\<close>

definition property_items :: "'f json \<Rightarrow> py_exception + (string \<times> 'f json) list" where
  "property_items schema =
     (case get_properties schema of Inl e \<Rightarrow> Inl e | Inr properties \<Rightarrow> items properties)"

section \<open>\<^verbatim>\<open>get_default_values_from_schema\<close>\<close>

text \<open>
  \<^verbatim>\<open>"default" in prop_schema\<close>.  The operator \<^verbatim>\<open>in\<close> is a key test on a dictionary, a
  substring test on a string, an element test on a list, and raises \<^verbatim>\<open>TypeError\<close> on
  values that are no containers.
\<close>

fun starts_with :: "string \<Rightarrow> string \<Rightarrow> bool" where
  "starts_with [] s = True"
| "starts_with (c # cs) [] = False"
| "starts_with (c # cs) (d # ds) = (c = d \<and> starts_with cs ds)"

fun substring :: "string \<Rightarrow> string \<Rightarrow> bool" where
  "substring t [] = (t = [])"
| "substring t (d # ds) = (starts_with t (d # ds) \<or> substring t ds)"

definition contains_default :: "'f json \<Rightarrow> py_exception + bool" where
  "contains_default prop_schema =
     (case prop_schema of
        JObj kv \<Rightarrow> Inr (dict_contains kv ''default'')
      | JStr s \<Rightarrow> Inr (substring ''default'' s)
      | JList xs \<Rightarrow> Inr (JStr ''default'' \<in> set xs)
      | _ \<Rightarrow> Inl TypeError)"

text \<open>
  \<^verbatim>\<open>prop_schema["default"]\<close>, evaluated only after the test above succeeded: a
  dictionary returns the value stored under the key (\<^verbatim>\<open>KeyError\<close> without the key), a
  string or a list rejects a string index with \<^verbatim>\<open>TypeError\<close>.
\<close>

definition subscript_default :: "'f json \<Rightarrow> py_exception + 'f json" where
  "subscript_default prop_schema =
     (case prop_schema of
        JObj kv \<Rightarrow> (case map_of kv ''default'' of Some d \<Rightarrow> Inr d | None \<Rightarrow> Inl KeyError)
      | _ \<Rightarrow> Inl TypeError)"

text \<open>The loop of lines 54 to 56, with the dictionary \<^verbatim>\<open>values\<close> as its state.\<close>

fun defaults_loop ::
  "(string \<times> 'f json) list \<Rightarrow> 'f json pydict \<Rightarrow> py_exception + 'f json pydict" where
  "defaults_loop [] values = Inr values"
| "defaults_loop ((prop_name, prop_schema) # rest) values =
     (case contains_default prop_schema of
        Inl e \<Rightarrow> Inl e
      | Inr False \<Rightarrow> defaults_loop rest values
      | Inr True \<Rightarrow>
          (case subscript_default prop_schema of
             Inl e \<Rightarrow> Inl e
           | Inr d \<Rightarrow> defaults_loop rest (dict_set prop_name d values)))"

definition get_default_values_from_schema :: "'f json \<Rightarrow> py_exception + 'f json pydict" where
  "get_default_values_from_schema schema =
     (case property_items schema of
        Inl e \<Rightarrow> Inl e
      | Inr props \<Rightarrow> defaults_loop props [])"


section \<open>The handler \<^verbatim>\<open>submit\<close>\<close>

text \<open>
  \<^verbatim>\<open>prop_schema.get("type")\<close>: the value stored under the key, \<^verbatim>\<open>None\<close> when the key is
  missing, \<^verbatim>\<open>AttributeError\<close> when the property schema is no dictionary.
\<close>

definition get_type :: "'f json \<Rightarrow> py_exception + 'f json" where
  "get_type prop_schema =
     (case prop_schema of
        JObj kv \<Rightarrow> (case map_of kv ''type'' of Some t \<Rightarrow> Inr t | None \<Rightarrow> Inr JNull)
      | _ \<Rightarrow> Inl AttributeError)"

text \<open>
  Lines 169 to 172.  The right-hand side \<^verbatim>\<open>prop_name in config\<close> is evaluated before the
  assignment stores its value.
\<close>

fun boolean_loop ::
  "(string \<times> 'f json) list \<Rightarrow> 'f json pydict \<Rightarrow> py_exception + 'f json pydict" where
  "boolean_loop [] config = Inr config"
| "boolean_loop ((prop_name, prop_schema) # rest) config =
     (case get_type prop_schema of
        Inl e \<Rightarrow> Inl e
      | Inr t \<Rightarrow>
          if t = JStr ''boolean''
          then boolean_loop rest (dict_set prop_name (JBool (dict_contains config prop_name)) config)
          else boolean_loop rest config)"

text \<open>\<^verbatim>\<open>except (ValueError, TypeError): pass\<close> catches these two and lets any other through.\<close>

definition caught :: "py_exception \<Rightarrow> bool" where
  "caught e = (e = ValueError \<or> e = TypeError)"

text \<open>
  Lines 175 to 186.  The builtins \<^verbatim>\<open>int\<close> and \<^verbatim>\<open>float\<close> are parameters: each maps a value
  to its result or to the exception it raises.
\<close>

fun numeric_loop ::
  "('f json \<Rightarrow> py_exception + int) \<Rightarrow> ('f json \<Rightarrow> py_exception + 'f) \<Rightarrow>
   (string \<times> 'f json) list \<Rightarrow> 'f json pydict \<Rightarrow> py_exception + 'f json pydict" where
  "numeric_loop py_int py_float [] config = Inr config"
| "numeric_loop py_int py_float ((prop_name, prop_schema) # rest) config =
     (case map_of config prop_name of
        None \<Rightarrow> numeric_loop py_int py_float rest config
      | Some raw \<Rightarrow>
          (case get_type prop_schema of
             Inl e \<Rightarrow> Inl e
           | Inr t \<Rightarrow>
               if t = JStr ''integer'' then
                 (case py_int raw of
                    Inr n \<Rightarrow> numeric_loop py_int py_float rest (dict_set prop_name (JInt n) config)
                  | Inl e \<Rightarrow> if caught e then numeric_loop py_int py_float rest config else Inl e)
               else if t = JStr ''number'' then
                 (case py_float raw of
                    Inr x \<Rightarrow> numeric_loop py_int py_float rest (dict_set prop_name (JFloat x) config)
                  | Inl e \<Rightarrow> if caught e then numeric_loop py_int py_float rest config else Inl e)
               else numeric_loop py_int py_float rest config))"

text \<open>
  Lines 165 and 169 to 186: the configuration that \<^verbatim>\<open>submit\<close> computes from the loaded
  schema and the posted form fields.  \<^verbatim>\<open>dict(form_data)\<close> holds the posted strings.
\<close>

definition submit_config ::
  "('f json \<Rightarrow> py_exception + int) \<Rightarrow> ('f json \<Rightarrow> py_exception + 'f) \<Rightarrow>
   'f json \<Rightarrow> string pydict \<Rightarrow> py_exception + 'f json pydict" where
  "submit_config py_int py_float schema form_data =
     (let config = map (\<lambda>(k, v). (k, JStr v)) form_data in
      case property_items schema of
        Inl e \<Rightarrow> Inl e
      | Inr props \<Rightarrow>
          (case boolean_loop props config of
             Inl e \<Rightarrow> Inl e
           | Inr config' \<Rightarrow>
               (case property_items schema of
                  Inl e \<Rightarrow> Inl e
                | Inr props' \<Rightarrow> numeric_loop py_int py_float props' config')))"

section \<open>\<^verbatim>\<open>load_test_schema\<close>\<close>

text \<open>
  What the loader reads: the module variable \<^verbatim>\<open>SCHEMA_PATH\<close> (\<^verbatim>\<open>None\<close> until the main
  block sets it), the answers of the file system to \<^verbatim>\<open>Path.exists\<close> and \<^verbatim>\<open>open\<close>, and
  \<^verbatim>\<open>json.load\<close> on the text of the file.
\<close>

record 'f env =
  SCHEMA_PATH :: "string option"
  path_exists :: "string \<Rightarrow> py_exception + bool"
  open_read :: "string \<Rightarrow> py_exception + string"
  json_load :: "string \<Rightarrow> py_exception + 'f json"

definition load_test_schema :: "'f env \<Rightarrow> py_exception + 'f json" where
  "load_test_schema env =
     (case SCHEMA_PATH env of
        None \<Rightarrow> Inl TypeError
      | Some schema_path \<Rightarrow>
          (case path_exists env schema_path of
             Inl e \<Rightarrow> Inl e
           | Inr False \<Rightarrow> Inl FileNotFoundError
           | Inr True \<Rightarrow>
               (case open_read env schema_path of
                  Inl e \<Rightarrow> Inl e
                | Inr f \<Rightarrow> json_load env f)))"

text \<open>Lines 162 to 186: the schema is loaded afresh, then the configuration is computed.\<close>

definition submit ::
  "'f env \<Rightarrow> ('f json \<Rightarrow> py_exception + int) \<Rightarrow> ('f json \<Rightarrow> py_exception + 'f) \<Rightarrow>
   string pydict \<Rightarrow> py_exception + 'f json pydict" where
  "submit env py_int py_float form_data =
     (case load_test_schema env of
        Inl e \<Rightarrow> Inl e
      | Inr schema \<Rightarrow> submit_config py_int py_float schema form_data)"

section \<open>Vocabulary of the statements\<close>

definition dict_keys :: "'v pydict \<Rightarrow> string set" where
  "dict_keys d = set (map fst d)"

definition is_mapping :: "'f json \<Rightarrow> bool" where
  "is_mapping v = (case v of JObj kv \<Rightarrow> True | _ \<Rightarrow> False)"

text \<open>
  A schema document as the data model has it: a dictionary whose \<open>properties\<close>, when
  present, is a dictionary from property names to property schemas that are
  dictionaries themselves.  The keys of a dictionary are distinct.
\<close>

definition well_formed :: "'f json \<Rightarrow> bool" where
  "well_formed schema =
     (case property_items schema of
        Inl e \<Rightarrow> False
      | Inr props \<Rightarrow> distinct (map fst props) \<and> list_all (\<lambda>(k, ps). is_mapping ps) props)"

definition property_names :: "'f json \<Rightarrow> string set" where
  "property_names schema =
     (case property_items schema of Inl e \<Rightarrow> {} | Inr props \<Rightarrow> set (map fst props))"

definition has_type :: "'f json \<Rightarrow> string \<Rightarrow> bool" where
  "has_type prop_schema t = (get_type prop_schema = Inr (JStr t))"

definition boolean_names :: "(string \<times> 'f json) list \<Rightarrow> string set" where
  "boolean_names props = set (map fst (filter (\<lambda>(k, ps). has_type ps ''boolean'') props))"

definition boolean_properties :: "'f json \<Rightarrow> string set" where
  "boolean_properties schema =
     (case property_items schema of Inl e \<Rightarrow> {} | Inr props \<Rightarrow> boolean_names props)"

text \<open>
  The builtins raise nothing but the exceptions that the handler catches when they are
  given a string, as Python's \<^verbatim>\<open>int\<close> and \<^verbatim>\<open>float\<close> do (\<^verbatim>\<open>ValueError\<close>).
\<close>

definition builtins_ok ::
  "('f json \<Rightarrow> py_exception + int) \<Rightarrow> ('f json \<Rightarrow> py_exception + 'f) \<Rightarrow> bool" where
  "builtins_ok py_int py_float =
     (\<forall>s e. (py_int (JStr s) = Inl e \<longrightarrow> caught e) \<and> (py_float (JStr s) = Inl e \<longrightarrow> caught e))"

text \<open>The value that lines 177 to 186 leave under a key whose value was \<open>v\<close>.\<close>

definition converted ::
  "('f json \<Rightarrow> py_exception + int) \<Rightarrow> ('f json \<Rightarrow> py_exception + 'f) \<Rightarrow>
   'f json \<Rightarrow> 'f json \<Rightarrow> 'f json" where
  "converted py_int py_float prop_schema v =
     (if has_type prop_schema ''integer''
      then (case py_int v of Inr n \<Rightarrow> JInt n | Inl e \<Rightarrow> v)
      else if has_type prop_schema ''number''
      then (case py_float v of Inr x \<Rightarrow> JFloat x | Inl e \<Rightarrow> v)
      else v)"

text \<open>The default that a property schema declares, if it is a dictionary with the key.\<close>

definition declared_default :: "'f json \<Rightarrow> 'f json option" where
  "declared_default prop_schema =
     (case prop_schema of JObj kv \<Rightarrow> map_of kv ''default'' | _ \<Rightarrow> None)"

text \<open>
  A schema document that is no dictionary, or whose \<open>properties\<close> is present and is no
  dictionary.
\<close>

definition structurally_invalid :: "'f json \<Rightarrow> bool" where
  "structurally_invalid schema =
     (case schema of
        JObj kv \<Rightarrow> (case map_of kv ''properties'' of Some v \<Rightarrow> \<not> is_mapping v | None \<Rightarrow> False)
      | _ \<Rightarrow> True)"

text \<open>
  The builtins raise nothing that escapes the handler on the value \<open>v\<close> stored under a
  property with schema \<open>prop_schema\<close>.
\<close>

definition safe_at ::
  "('f json \<Rightarrow> py_exception + int) \<Rightarrow> ('f json \<Rightarrow> py_exception + 'f) \<Rightarrow>
   'f json \<Rightarrow> 'f json \<Rightarrow> bool" where
  "safe_at py_int py_float prop_schema v =
     ((has_type prop_schema ''integer'' \<longrightarrow> (\<forall>e. py_int v = Inl e \<longrightarrow> caught e)) \<and>
      (has_type prop_schema ''number'' \<longrightarrow> (\<forall>e. py_float v = Inl e \<longrightarrow> caught e)))"

subsection \<open>Builtins and documents for the examples\<close>

text \<open>
  An instance of the builtins on which the model can be run: strings of ASCII digits
  with an optional minus sign are numbers, every other string raises \<^verbatim>\<open>ValueError\<close>.
  (Python's builtins accept more strings; the theorems hold for any builtins that
  satisfy \<open>builtins_ok\<close>.)  Rationals stand for the floats.
\<close>

definition digit_of :: "char \<Rightarrow> nat option" where
  "digit_of c =
     map_of [(CHR ''0'', 0), (CHR ''1'', 1), (CHR ''2'', 2), (CHR ''3'', 3), (CHR ''4'', 4),
             (CHR ''5'', 5), (CHR ''6'', 6), (CHR ''7'', 7), (CHR ''8'', 8), (CHR ''9'', 9)] c"

fun digits_value :: "string \<Rightarrow> nat \<Rightarrow> nat option" where
  "digits_value [] acc = Some acc"
| "digits_value (c # cs) acc =
     (case digit_of c of None \<Rightarrow> None | Some d \<Rightarrow> digits_value cs (10 * acc + d))"

definition decimal :: "string \<Rightarrow> int option" where
  "decimal s =
     (case s of
        [] \<Rightarrow> None
      | c # cs \<Rightarrow>
          if c = CHR ''-''
          then (if cs = [] then None else map_option (\<lambda>n. - int n) (digits_value cs 0))
          else map_option int (digits_value s 0))"

definition sample_int :: "rat json \<Rightarrow> py_exception + int" where
  "sample_int v =
     (case v of
        JStr s \<Rightarrow> (case decimal s of Some n \<Rightarrow> Inr n | None \<Rightarrow> Inl ValueError)
      | JInt n \<Rightarrow> Inr n
      | JBool b \<Rightarrow> Inr (if b then 1 else 0)
      | JFloat x \<Rightarrow> Inr (if 0 \<le> x then \<lfloor>x\<rfloor> else \<lceil>x\<rceil>)
      | _ \<Rightarrow> Inl TypeError)"

definition sample_float :: "rat json \<Rightarrow> py_exception + rat" where
  "sample_float v =
     (case v of
        JStr s \<Rightarrow> (case decimal s of Some n \<Rightarrow> Inr (of_int n) | None \<Rightarrow> Inl ValueError)
      | JInt n \<Rightarrow> Inr (of_int n)
      | JBool b \<Rightarrow> Inr (if b then 1 else 0)
      | JFloat x \<Rightarrow> Inr x
      | _ \<Rightarrow> Inl TypeError)"

text \<open>
  A schema with one property of each kind, and one whose declared default does not
  have the declared type.
\<close>

definition demo_schema :: "rat json" where
  "demo_schema =
     JObj [(''title'', JStr ''Demo''),
           (''properties'',
            JObj [(''name'', JObj [(''type'', JStr ''string''), (''default'', JStr ''hi'')]),
                  (''n'', JObj [(''type'', JStr ''integer'')]),
                  (''ratio'', JObj [(''type'', JStr ''number'')]),
                  (''enabled'', JObj [(''type'', JStr ''boolean''), (''default'', JBool True)]),
                  (''count'', JObj [(''type'', JStr ''integer''), (''default'', JStr ''many'')])])]"

text \<open>
  Two states of the world for the loader: the schema file is missing; it exists but
  cannot be opened.
\<close>

definition missing_env :: "rat env" where
  "missing_env =
     \<lparr>SCHEMA_PATH = Some ''schema.json'', path_exists = (\<lambda>p. Inr False),
      open_read = (\<lambda>p. Inl FileNotFoundError), json_load = (\<lambda>t. Inl JSONDecodeError)\<rparr>"

definition locked_env :: "rat env" where
  "locked_env =
     \<lparr>SCHEMA_PATH = Some ''schema.json'', path_exists = (\<lambda>p. Inr True),
      open_read = (\<lambda>p. Inl PermissionError), json_load = (\<lambda>t. Inl JSONDecodeError)\<rparr>"

section \<open>The store: \<^verbatim>\<open>get_default_values_from_schema\<close> on objects\<close>

text \<open>
  Python values are objects with an identity, and dictionaries and lists are mutable.
  To state that a call changes no object that existed before it, the function is
  modelled a second time on a store: a list of objects, an address being an index into
  it.  Lists and dictionaries hold the addresses of their elements.  A new object is
  appended, so it gets an address that was not in use.  The addresses that the function
  receives and reads are references to existing objects.
\<close>

type_synonym addr = nat

datatype 'f obj =
    ONone
  | OBool bool
  | OInt int
  | OFloat 'f
  | OStr string
  | OList "addr list"
  | ODict "(string \<times> addr) list"

type_synonym 'f heap = "'f obj list"

definition alloc :: "'f obj \<Rightarrow> 'f heap \<Rightarrow> 'f heap \<times> addr" where
  "alloc ob h = (h @ [ob], length h)"

text \<open>\<^verbatim>\<open>"default" in prop_schema\<close> and \<^verbatim>\<open>prop_schema["default"]\<close> on the store.\<close>

definition contains_default_h :: "'f heap \<Rightarrow> addr \<Rightarrow> py_exception + bool" where
  "contains_default_h h prop_schema =
     (case h ! prop_schema of
        ODict kv \<Rightarrow> Inr (dict_contains kv ''default'')
      | OStr s \<Rightarrow> Inr (substring ''default'' s)
      | OList ads \<Rightarrow> Inr (list_ex (\<lambda>a. h ! a = OStr ''default'') ads)
      | _ \<Rightarrow> Inl TypeError)"

definition subscript_default_h :: "'f heap \<Rightarrow> addr \<Rightarrow> py_exception + addr" where
  "subscript_default_h h prop_schema =
     (case h ! prop_schema of
        ODict kv \<Rightarrow> (case map_of kv ''default'' of Some d \<Rightarrow> Inr d | None \<Rightarrow> Inl KeyError)
      | _ \<Rightarrow> Inl TypeError)"

text \<open>\<^verbatim>\<open>d[k] = a\<close>: the dictionary object at \<open>d\<close> is updated in place.\<close>

definition store_item :: "addr \<Rightarrow> string \<Rightarrow> addr \<Rightarrow> 'f heap \<Rightarrow> 'f heap" where
  "store_item d k a h =
     (case h ! d of ODict kv \<Rightarrow> h[d := ODict (dict_set k a kv)] | _ \<Rightarrow> h)"

text \<open>Lines 54 to 56; \<open>values\<close> is the address of the result dictionary.\<close>

fun defaults_loop_h ::
  "(string \<times> addr) list \<Rightarrow> addr \<Rightarrow> 'f heap \<Rightarrow> 'f heap \<times> (py_exception + unit)" where
  "defaults_loop_h [] values h = (h, Inr ())"
| "defaults_loop_h ((prop_name, prop_schema) # rest) values h =
     (case contains_default_h h prop_schema of
        Inl e \<Rightarrow> (h, Inl e)
      | Inr False \<Rightarrow> defaults_loop_h rest values h
      | Inr True \<Rightarrow>
          (case subscript_default_h h prop_schema of
             Inl e \<Rightarrow> (h, Inl e)
           | Inr d \<Rightarrow> defaults_loop_h rest values (store_item values prop_name d h)))"

text \<open>
  Lines 51 to 58: \<^verbatim>\<open>values = {}\<close> allocates the result, the argument \<^verbatim>\<open>{}\<close> of
  \<^verbatim>\<open>get\<close> allocates a second empty dictionary, and the loop stores into the first.
  The result is the final store and the address of \<open>values\<close>, or the exception.
\<close>

definition get_default_values_from_schema_h ::
  "'f heap \<Rightarrow> addr \<Rightarrow> 'f heap \<times> (py_exception + addr)" where
  "get_default_values_from_schema_h h schema =
     (let (h1, values) = alloc (ODict []) h in
      case h1 ! schema of
        ODict kv \<Rightarrow>
          (let (h2, dflt) = alloc (ODict []) h1;
               properties = (case map_of kv ''properties'' of Some a \<Rightarrow> a | None \<Rightarrow> dflt)
           in case h2 ! properties of
                ODict props \<Rightarrow>
                  (case defaults_loop_h props values h2 of
                     (h3, Inl e) \<Rightarrow> (h3, Inl e)
                   | (h3, Inr u) \<Rightarrow> (h3, Inr values))
              | _ \<Rightarrow> (h2, Inl AttributeError))
      | _ \<Rightarrow> (h1, Inl AttributeError))"

text \<open>
  The object at address \<open>a\<close> of the store \<open>h\<close> represents the value \<open>j\<close>: it has
  the same kind, and its elements represent the elements of \<open>j\<close>, in the same order
  and under the same keys.
\<close>

fun rep :: "'f heap \<Rightarrow> addr \<Rightarrow> 'f json \<Rightarrow> bool"
  and rep_list :: "'f heap \<Rightarrow> addr list \<Rightarrow> 'f json list \<Rightarrow> bool"
  and rep_items :: "'f heap \<Rightarrow> (string \<times> addr) list \<Rightarrow> (string \<times> 'f json) list \<Rightarrow> bool" where
  "rep h a JNull = (a < length h \<and> h ! a = ONone)"
| "rep h a (JBool b) = (a < length h \<and> h ! a = OBool b)"
| "rep h a (JInt n) = (a < length h \<and> h ! a = OInt n)"
| "rep h a (JFloat x) = (a < length h \<and> h ! a = OFloat x)"
| "rep h a (JStr s) = (a < length h \<and> h ! a = OStr s)"
| "rep h a (JList js) =
     (a < length h \<and> (case h ! a of OList ads \<Rightarrow> rep_list h ads js | _ \<Rightarrow> False))"
| "rep h a (JObj kjs) =
     (a < length h \<and> (case h ! a of ODict kas \<Rightarrow> rep_items h kas kjs | _ \<Rightarrow> False))"
| "rep_list h ads [] = (ads = [])"
| "rep_list h ads (j # js) =
     (case ads of [] \<Rightarrow> False | a # ads' \<Rightarrow> rep h a j \<and> rep_list h ads' js)"
| "rep_items h kas [] = (kas = [])"
| "rep_items h kas ((k, j) # kjs) =
     (case kas of
        [] \<Rightarrow> False
      | (k', a) # kas' \<Rightarrow> k' = k \<and> rep h a j \<and> rep_items h kas' kjs)"

subsection \<open>The handler on the store\<close>

text \<open>
  Lines 165 to 186 on the store.  The values that the handler keeps in \<^verbatim>\<open>config\<close> are
  strings, booleans and numbers: objects without elements.
\<close>

definition is_atom :: "'f json \<Rightarrow> bool" where
  "is_atom j = (case j of JList xs \<Rightarrow> False | JObj kv \<Rightarrow> False | _ \<Rightarrow> True)"

text \<open>The value of an object without elements.\<close>

definition atom_of :: "'f obj \<Rightarrow> 'f json option" where
  "atom_of ob =
     (case ob of
        ONone \<Rightarrow> Some JNull
      | OBool b \<Rightarrow> Some (JBool b)
      | OInt n \<Rightarrow> Some (JInt n)
      | OFloat x \<Rightarrow> Some (JFloat x)
      | OStr s \<Rightarrow> Some (JStr s)
      | OList ads \<Rightarrow> None
      | ODict kv \<Rightarrow> None)"

text \<open>
  A call \<^verbatim>\<open>int(x)\<close> or \<^verbatim>\<open>float(x)\<close>: the builtin sees the value of the object; on a
  list or a dictionary both builtins raise \<^verbatim>\<open>TypeError\<close>.
\<close>

definition call_builtin ::
  "('f json \<Rightarrow> py_exception + 'r) \<Rightarrow> 'f heap \<Rightarrow> addr \<Rightarrow> py_exception + 'r" where
  "call_builtin f h a = (case atom_of (h ! a) of Some j \<Rightarrow> f j | None \<Rightarrow> Inl TypeError)"

text \<open>\<^verbatim>\<open>prop_schema.get("type") == t\<close> for a string \<open>t\<close>.\<close>

definition type_is :: "'f heap \<Rightarrow> addr \<Rightarrow> string \<Rightarrow> py_exception + bool" where
  "type_is h prop_schema t =
     (case h ! prop_schema of
        ODict kv \<Rightarrow> Inr (case map_of kv ''type'' of Some a \<Rightarrow> h ! a = OStr t | None \<Rightarrow> False)
      | _ \<Rightarrow> Inl AttributeError)"

text \<open>\<^verbatim>\<open>k in d\<close> and the address that \<^verbatim>\<open>d[k]\<close> reads, for a dictionary object \<open>d\<close>.\<close>

definition key_in :: "'f heap \<Rightarrow> addr \<Rightarrow> string \<Rightarrow> bool" where
  "key_in h d k = (case h ! d of ODict kv \<Rightarrow> dict_contains kv k | _ \<Rightarrow> False)"

definition lookup_h :: "'f heap \<Rightarrow> addr \<Rightarrow> string \<Rightarrow> addr option" where
  "lookup_h h d k = (case h ! d of ODict kv \<Rightarrow> map_of kv k | _ \<Rightarrow> None)"

text \<open>
  \<^verbatim>\<open>d[k] = <new object>\<close>: the value of the right-hand side is put on the store and its
  address is stored under \<open>k\<close>.
\<close>

definition store_new :: "addr \<Rightarrow> string \<Rightarrow> 'f obj \<Rightarrow> 'f heap \<Rightarrow> 'f heap" where
  "store_new d k ob h = (let (h1, a) = alloc ob h in store_item d k a h1)"

text \<open>
  \<^verbatim>\<open>schema.get("properties", {}).items()\<close>: the argument \<^verbatim>\<open>{}\<close> is a new empty
  dictionary at each evaluation.
\<close>

definition property_items_h ::
  "'f heap \<Rightarrow> addr \<Rightarrow> 'f heap \<times> (py_exception + (string \<times> addr) list)" where
  "property_items_h h schema =
     (case h ! schema of
        ODict kv \<Rightarrow>
          (let (h1, dflt) = alloc (ODict []) h;
               properties = (case map_of kv ''properties'' of Some a \<Rightarrow> a | None \<Rightarrow> dflt)
           in case h1 ! properties of
                ODict props \<Rightarrow> (h1, Inr props)
              | _ \<Rightarrow> (h1, Inl AttributeError))
      | _ \<Rightarrow> (h, Inl AttributeError))"

text \<open>Lines 169 to 172; \<open>config\<close> is the address of the dictionary being filled.\<close>

fun boolean_loop_h ::
  "(string \<times> addr) list \<Rightarrow> addr \<Rightarrow> 'f heap \<Rightarrow> 'f heap \<times> (py_exception + unit)" where
  "boolean_loop_h [] config h = (h, Inr ())"
| "boolean_loop_h ((prop_name, prop_schema) # rest) config h =
     (case type_is h prop_schema ''boolean'' of
        Inl e \<Rightarrow> (h, Inl e)
      | Inr True \<Rightarrow>
          boolean_loop_h rest config
            (store_new config prop_name (OBool (key_in h config prop_name)) h)
      | Inr False \<Rightarrow> boolean_loop_h rest config h)"

text \<open>
  Lines 175 to 186.  The \<^verbatim>\<open>elif\<close> evaluates \<^verbatim>\<open>prop_schema.get("type")\<close> a second
  time.
\<close>

fun numeric_loop_h ::
  "('f json \<Rightarrow> py_exception + int) \<Rightarrow> ('f json \<Rightarrow> py_exception + 'f) \<Rightarrow>
   (string \<times> addr) list \<Rightarrow> addr \<Rightarrow> 'f heap \<Rightarrow> 'f heap \<times> (py_exception + unit)" where
  "numeric_loop_h py_int py_float [] config h = (h, Inr ())"
| "numeric_loop_h py_int py_float ((prop_name, prop_schema) # rest) config h =
     (case lookup_h h config prop_name of
        None \<Rightarrow> numeric_loop_h py_int py_float rest config h
      | Some raw \<Rightarrow>
          (case type_is h prop_schema ''integer'' of
             Inl e \<Rightarrow> (h, Inl e)
           | Inr True \<Rightarrow>
               (case call_builtin py_int h raw of
                  Inr n \<Rightarrow>
                    numeric_loop_h py_int py_float rest config
                      (store_new config prop_name (OInt n) h)
                | Inl e \<Rightarrow>
                    if caught e then numeric_loop_h py_int py_float rest config h
                    else (h, Inl e))
           | Inr False \<Rightarrow>
               (case type_is h prop_schema ''number'' of
                  Inl e \<Rightarrow> (h, Inl e)
                | Inr True \<Rightarrow>
                    (case call_builtin py_float h raw of
                       Inr x \<Rightarrow>
                         numeric_loop_h py_int py_float rest config
                           (store_new config prop_name (OFloat x) h)
                     | Inl e \<Rightarrow>
                         if caught e then numeric_loop_h py_int py_float rest config h
                         else (h, Inl e))
                | Inr False \<Rightarrow> numeric_loop_h py_int py_float rest config h)))"

text \<open>
  \<^verbatim>\<open>config = dict(form_data)\<close> is a new dictionary that holds the addresses of the posted
  strings; the two loops write into it and into nothing else.  The result is the final
  store and the address of \<^verbatim>\<open>config\<close>, or the exception.  The form data is a mapping;
  \<^verbatim>\<open>dict\<close> of an object that cannot be iterated raises \<^verbatim>\<open>TypeError\<close>.
\<close>

definition submit_config_h ::
  "('f json \<Rightarrow> py_exception + int) \<Rightarrow> ('f json \<Rightarrow> py_exception + 'f) \<Rightarrow>
   'f heap \<Rightarrow> addr \<Rightarrow> addr \<Rightarrow> 'f heap \<times> (py_exception + addr)" where
  "submit_config_h py_int py_float h schema form_data =
     (case h ! form_data of
        ODict fd \<Rightarrow>
          (let (h1, config) = alloc (ODict fd) h in
           case property_items_h h1 schema of
             (h2, Inl e) \<Rightarrow> (h2, Inl e)
           | (h2, Inr props) \<Rightarrow>
               (case boolean_loop_h props config h2 of
                  (h3, Inl e) \<Rightarrow> (h3, Inl e)
                | (h3, Inr u) \<Rightarrow>
                    (case property_items_h h3 schema of
                       (h4, Inl e) \<Rightarrow> (h4, Inl e)
                     | (h4, Inr props') \<Rightarrow>
                         (case numeric_loop_h py_int py_float props' config h4 of
                            (h5, Inl e) \<Rightarrow> (h5, Inl e)
                          | (h5, Inr u') \<Rightarrow> (h5, Inr config)))))
      | _ \<Rightarrow> (h, Inl TypeError))"

text \<open>The posted form as a value: a dictionary of strings.\<close>

definition form_json :: "string pydict \<Rightarrow> 'f json" where
  "form_json form_data = JObj (map (\<lambda>(k, v). (k, JStr v)) form_data)"

text \<open>
  The dictionary object at \<open>ca\<close> represents the configuration \<open>cfg\<close>, whose values
  have no elements.
\<close>

definition config_rel :: "'f heap \<Rightarrow> addr \<Rightarrow> 'f json pydict \<Rightarrow> bool" where
  "config_rel h ca cfg =
     (ca < length h
      \<and> (case h ! ca of ODict kas \<Rightarrow> rep_items h kas cfg | _ \<Rightarrow> False)
      \<and> list_all (\<lambda>(k, j). is_atom j) cfg)"

text \<open>
  A store that holds a schema with a boolean and an integer property (address 5) and a
  posted form with one field (address 7), and the schema as a value.
\<close>

definition form_heap :: "rat heap" where
  "form_heap =
     [OStr ''boolean'', ODict [(''type'', 0)], OStr ''integer'', ODict [(''type'', 2)],
      ODict [(''on'', 1), (''n'', 3)], ODict [(''properties'', 4)],
      OStr ''42'', ODict [(''n'', 6)]]"

definition form_schema :: "rat json" where
  "form_schema =
     JObj [(''properties'',
            JObj [(''on'', JObj [(''type'', JStr ''boolean'')]),
                  (''n'', JObj [(''type'', JStr ''integer'')])])]"

section \<open>Dictionaries\<close>

lemma map_of_dict_set: "map_of (dict_set k v d) = (map_of d)(k \<mapsto> v)"
  by (induction d) auto

lemma dict_keys_dict_set: "dict_keys (dict_set k v d) = insert k (dict_keys d)"
proof (induction d)
  case Nil
  show ?case by (simp add: dict_keys_def)
next
  case (Cons a d)
  obtain k' v' where a: "a = (k', v')" by (cases a)
  from Cons have "fst ` set (dict_set k v d) = insert k (fst ` set d)"
    by (simp add: dict_keys_def)
  then show ?case using a by (simp add: dict_keys_def insert_commute)
qed

lemma dict_contains_keys: "dict_contains d k = (k \<in> dict_keys d)"
  by (simp add: dict_contains_def dict_keys_def)

lemma map_of_None_keys: "(map_of d k = None) = (k \<notin> dict_keys d)"
  by (simp add: dict_keys_def map_of_eq_None_iff)

lemma get_type_mapping: "is_mapping ps \<Longrightarrow> \<exists>t. get_type ps = Inr t"
  by (cases ps) (auto simp: is_mapping_def get_type_def split: option.splits)

section \<open>The two loops of the handler\<close>

lemma dict_keys_Cons: "dict_keys ((k, v) # d) = insert k (dict_keys d)"
  by (simp add: dict_keys_def)

lemma boolean_names_Cons:
  "boolean_names ((p, ps) # rest) =
     (if has_type ps ''boolean'' then insert p (boolean_names rest) else boolean_names rest)"
  by (simp add: boolean_names_def)

lemma boolean_names_subset: "boolean_names props \<subseteq> fst ` set props"
  by (auto simp: boolean_names_def)

lemma boolean_names_map_of:
  "distinct (map fst props) \<Longrightarrow>
   (k \<in> boolean_names props) = (\<exists>ps. map_of props k = Some ps \<and> has_type ps ''boolean'')"
proof (induction props)
  case Nil
  then show ?case by (simp add: boolean_names_def)
next
  case (Cons a props)
  obtain p ps where a: "a = (p, ps)" by (cases a)
  from Cons.prems a have pn: "p \<notin> fst ` set props" and d: "distinct (map fst props)" by auto
  have pb: "p \<notin> boolean_names props" using pn boolean_names_subset by blast
  have pm: "map_of props p = None" using pn by (simp add: map_of_eq_None_iff)
  show ?case
  proof (cases "k = p")
    case True
    then show ?thesis using a pb pm by (simp add: boolean_names_Cons)
  next
    case False
    then show ?thesis using a Cons.IH [OF d] by (simp add: boolean_names_Cons)
  qed
qed

lemma boolean_loop_result:
  "list_all (\<lambda>(k, ps). is_mapping ps) props \<Longrightarrow> distinct (map fst props) \<Longrightarrow>
   \<exists>c'. boolean_loop props c = Inr c'
      \<and> dict_keys c' = dict_keys c \<union> boolean_names props
      \<and> (\<forall>k. map_of c' k =
           (if k \<in> boolean_names props then Some (JBool (k \<in> dict_keys c)) else map_of c k))"
proof (induction props arbitrary: c)
  case Nil
  then show ?case by (simp add: boolean_names_def)
next
  case (Cons a rest)
  obtain p ps where a: "a = (p, ps)" by (cases a)
  from Cons.prems a have m: "is_mapping ps" and rm: "list_all (\<lambda>(k, ps). is_mapping ps) rest"
    and pn: "p \<notin> fst ` set rest" and rd: "distinct (map fst rest)"
    by auto
  from get_type_mapping [OF m] obtain t where t: "get_type ps = Inr t" by blast
  have pb: "p \<notin> boolean_names rest"
    using pn boolean_names_subset by blast
  show ?case
  proof (cases "t = JStr ''boolean''")
    case True
    let ?c1 = "dict_set p (JBool (dict_contains c p)) c"
    from Cons.IH [OF rm rd, of ?c1] obtain c' where
      r: "boolean_loop rest ?c1 = Inr c'"
      and k: "dict_keys c' = dict_keys ?c1 \<union> boolean_names rest"
      and v: "\<forall>k. map_of c' k =
           (if k \<in> boolean_names rest then Some (JBool (k \<in> dict_keys ?c1)) else map_of ?c1 k)"
      by blast
    have hb: "has_type ps ''boolean''" using t True by (simp add: has_type_def)
    have "boolean_loop (a # rest) c = Inr c'"
      using a t True r by simp
    moreover have "dict_keys c' = dict_keys c \<union> boolean_names (a # rest)"
      using k hb a by (simp add: dict_keys_dict_set boolean_names_Cons)
    moreover have "\<forall>k. map_of c' k =
           (if k \<in> boolean_names (a # rest) then Some (JBool (k \<in> dict_keys c)) else map_of c k)"
      using v hb a pb
      by (auto simp: dict_keys_dict_set boolean_names_Cons map_of_dict_set dict_contains_keys)
    ultimately show ?thesis by blast
  next
    case False
    from Cons.IH [OF rm rd, of c] obtain c' where
      r: "boolean_loop rest c = Inr c'"
      and k: "dict_keys c' = dict_keys c \<union> boolean_names rest"
      and v: "\<forall>k. map_of c' k =
           (if k \<in> boolean_names rest then Some (JBool (k \<in> dict_keys c)) else map_of c k)"
      by blast
    have hb: "\<not> has_type ps ''boolean''" using t False by (simp add: has_type_def)
    have "boolean_loop (a # rest) c = Inr c'"
      using a t False r by simp
    then show ?thesis
      using k v hb a by (simp add: boolean_names_Cons)
  qed
qed

lemma numeric_step:
  assumes m: "is_mapping ps" and v: "map_of c p = Some v" and s: "safe_at py_int py_float ps v"
  shows "numeric_loop py_int py_float ((p, ps) # rest) c =
           numeric_loop py_int py_float rest (dict_set p (converted py_int py_float ps v) c)
       \<or> (converted py_int py_float ps v = v \<and>
          numeric_loop py_int py_float ((p, ps) # rest) c = numeric_loop py_int py_float rest c)"
proof -
  from get_type_mapping [OF m] obtain t where t: "get_type ps = Inr t" by blast
  show ?thesis
    using t v s
    by (auto simp: converted_def has_type_def safe_at_def split: sum.splits)
qed

lemma dict_set_same: "map_of c p = Some v \<Longrightarrow> map_of (dict_set p v c) = map_of c"
  by (auto simp: map_of_dict_set)

lemma dict_keys_set_present: "map_of c p = Some v \<Longrightarrow> dict_keys (dict_set p w c) = dict_keys c"
  using map_of_None_keys [of c p] by (auto simp: dict_keys_dict_set)

lemma numeric_loop_result:
  "list_all (\<lambda>(k, ps). is_mapping ps) props \<Longrightarrow> distinct (map fst props) \<Longrightarrow>
   (\<forall>k ps v. (k, ps) \<in> set props \<longrightarrow> map_of c k = Some v \<longrightarrow> safe_at py_int py_float ps v) \<Longrightarrow>
   \<exists>c'. numeric_loop py_int py_float props c = Inr c'
      \<and> dict_keys c' = dict_keys c
      \<and> (\<forall>k. map_of c' k =
           (case map_of props k of
              None \<Rightarrow> map_of c k
            | Some ps \<Rightarrow> map_option (converted py_int py_float ps) (map_of c k)))"
proof (induction props arbitrary: c)
  case Nil
  then show ?case by simp
next
  case (Cons a rest)
  obtain p ps where a: "a = (p, ps)" by (cases a)
  from Cons.prems a have m: "is_mapping ps" and rm: "list_all (\<lambda>(k, ps). is_mapping ps) rest"
    and pn: "p \<notin> fst ` set rest" and rd: "distinct (map fst rest)"
    by auto
  have pr: "map_of rest p = None" using pn by (simp add: map_of_eq_None_iff)
  show ?case
  proof (cases "map_of c p")
    case None
    have safe: "\<forall>k ps v. (k, ps) \<in> set rest \<longrightarrow> map_of c k = Some v \<longrightarrow> safe_at py_int py_float ps v"
      using Cons.prems(3) by auto
    from Cons.IH [OF rm rd safe] obtain c' where
      r: "numeric_loop py_int py_float rest c = Inr c'"
      and k: "dict_keys c' = dict_keys c"
      and v: "\<forall>k. map_of c' k =
           (case map_of rest k of
              None \<Rightarrow> map_of c k
            | Some ps \<Rightarrow> map_option (converted py_int py_float ps) (map_of c k))"
      by blast
    have "numeric_loop py_int py_float (a # rest) c = Inr c'"
      using a None r by simp
    then show ?thesis using k v a None pr by auto
  next
    case (Some w)
    have sw: "safe_at py_int py_float ps w"
      using Cons.prems(3) a Some by auto
    let ?c1 = "dict_set p (converted py_int py_float ps w) c"
    have safe: "\<forall>k qs v. (k, qs) \<in> set rest \<longrightarrow> map_of ?c1 k = Some v \<longrightarrow> safe_at py_int py_float qs v"
    proof (intro allI impI)
      fix k qs v assume kq: "(k, qs) \<in> set rest" and kv: "map_of ?c1 k = Some v"
      from kq pn have "k \<noteq> p" by force
      with kv have "map_of c k = Some v" by (simp add: map_of_dict_set)
      with Cons.prems(3) kq show "safe_at py_int py_float qs v" by auto
    qed
    from Cons.IH [OF rm rd safe] obtain c' where
      r: "numeric_loop py_int py_float rest ?c1 = Inr c'"
      and k: "dict_keys c' = dict_keys ?c1"
      and v: "\<forall>k. map_of c' k =
           (case map_of rest k of
              None \<Rightarrow> map_of ?c1 k
            | Some ps \<Rightarrow> map_option (converted py_int py_float ps) (map_of ?c1 k))"
      by blast
    have safe0: "\<forall>k qs v. (k, qs) \<in> set rest \<longrightarrow> map_of c k = Some v \<longrightarrow> safe_at py_int py_float qs v"
      using Cons.prems(3) by auto
    from Cons.IH [OF rm rd safe0] obtain c0 where
      r0: "numeric_loop py_int py_float rest c = Inr c0"
      and k0: "dict_keys c0 = dict_keys c"
      and v0: "\<forall>k. map_of c0 k =
           (case map_of rest k of
              None \<Rightarrow> map_of c k
            | Some ps \<Rightarrow> map_option (converted py_int py_float ps) (map_of c k))"
      by blast
    from numeric_step [OF m Some sw, of rest]
    show ?thesis
    proof
      assume e: "numeric_loop py_int py_float ((p, ps) # rest) c =
           numeric_loop py_int py_float rest ?c1"
      have "numeric_loop py_int py_float (a # rest) c = Inr c'"
        using a e r by simp
      moreover have "dict_keys c' = dict_keys c"
        using k dict_keys_set_present [OF Some] by simp
      moreover have "\<forall>k. map_of c' k =
           (case map_of (a # rest) k of
              None \<Rightarrow> map_of c k
            | Some ps \<Rightarrow> map_option (converted py_int py_float ps) (map_of c k))"
        using v a pr Some by (auto simp: map_of_dict_set split: option.splits)
      ultimately show ?thesis by blast
    next
      assume e: "converted py_int py_float ps w = w \<and>
          numeric_loop py_int py_float ((p, ps) # rest) c = numeric_loop py_int py_float rest c"
      have "numeric_loop py_int py_float (a # rest) c = Inr c0"
        using a e r0 by simp
      moreover have "\<forall>k. map_of c0 k =
           (case map_of (a # rest) k of
              None \<Rightarrow> map_of c k
            | Some ps \<Rightarrow> map_option (converted py_int py_float ps) (map_of c k))"
        using v0 a pr Some e by (auto split: option.splits)
      ultimately show ?thesis using k0 by blast
    qed
  qed
qed

lemma map_of_form: "map_of (map (\<lambda>(k, v). (k, JStr v)) R) k = map_option JStr (map_of R k)"
  by (induction R) auto

lemma dict_keys_form: "dict_keys (map (\<lambda>(k, v). (k, JStr v)) R) = dict_keys R"
  by (induction R) (auto simp: dict_keys_def)

lemma converted_other:
  "has_type ps ''boolean'' \<Longrightarrow> converted py_int py_float ps v = v"
  by (simp add: converted_def has_type_def)

lemma submit_config_result:
  assumes wf: "well_formed S" and ok: "builtins_ok py_int py_float"
    and props: "property_items S = Inr props"
  shows "\<exists>cfg. submit_config py_int py_float S R = Inr cfg
      \<and> dict_keys cfg = dict_keys R \<union> boolean_names props
      \<and> (\<forall>k. map_of cfg k =
           (if k \<in> boolean_names props then Some (JBool (k \<in> dict_keys R))
            else case map_of R k of
                   None \<Rightarrow> None
                 | Some s \<Rightarrow>
                     (case map_of props k of
                        None \<Rightarrow> Some (JStr s)
                      | Some ps \<Rightarrow> Some (converted py_int py_float ps (JStr s)))))"
proof -
  let ?c0 = "map (\<lambda>(k, v). (k, JStr v)) R"
  from wf props have d: "distinct (map fst props)"
    and m: "list_all (\<lambda>(k, ps). is_mapping ps) props"
    by (simp_all add: well_formed_def)
  from boolean_loop_result [OF m d, of ?c0] obtain c1 where
    b: "boolean_loop props ?c0 = Inr c1"
    and bk: "dict_keys c1 = dict_keys R \<union> boolean_names props"
    and bv: "\<forall>k. map_of c1 k =
           (if k \<in> boolean_names props then Some (JBool (k \<in> dict_keys R))
            else map_option JStr (map_of R k))"
    by (auto simp: dict_keys_form map_of_form)
  have safe: "\<forall>k ps v. (k, ps) \<in> set props \<longrightarrow> map_of c1 k = Some v \<longrightarrow> safe_at py_int py_float ps v"
  proof (intro allI impI)
    fix k ps v assume kp: "(k, ps) \<in> set props" and kv: "map_of c1 k = Some v"
    have mp: "map_of props k = Some ps" using d kp by (rule map_of_is_SomeI)
    show "safe_at py_int py_float ps v"
    proof (cases "k \<in> boolean_names props")
      case True
      with mp d have "has_type ps ''boolean''" by (simp add: boolean_names_map_of)
      then show ?thesis by (simp add: safe_at_def has_type_def)
    next
      case False
      with bv kv obtain s where "v = JStr s" by auto
      with ok show ?thesis by (auto simp: safe_at_def builtins_ok_def)
    qed
  qed
  from numeric_loop_result [OF m d safe] obtain c2 where
    n: "numeric_loop py_int py_float props c1 = Inr c2"
    and nk: "dict_keys c2 = dict_keys c1"
    and nv: "\<forall>k. map_of c2 k =
           (case map_of props k of
              None \<Rightarrow> map_of c1 k
            | Some ps \<Rightarrow> map_option (converted py_int py_float ps) (map_of c1 k))"
    by blast
  have "submit_config py_int py_float S R = Inr c2"
    using props b n by (simp add: submit_config_def)
  moreover have "dict_keys c2 = dict_keys R \<union> boolean_names props"
    using nk bk by simp
  moreover have "\<forall>k. map_of c2 k =
           (if k \<in> boolean_names props then Some (JBool (k \<in> dict_keys R))
            else case map_of R k of
                   None \<Rightarrow> None
                 | Some s \<Rightarrow>
                     (case map_of props k of
                        None \<Rightarrow> Some (JStr s)
                      | Some ps \<Rightarrow> Some (converted py_int py_float ps (JStr s))))"
  proof
    fix k
    show "map_of c2 k =
           (if k \<in> boolean_names props then Some (JBool (k \<in> dict_keys R))
            else case map_of R k of
                   None \<Rightarrow> None
                 | Some s \<Rightarrow>
                     (case map_of props k of
                        None \<Rightarrow> Some (JStr s)
                      | Some ps \<Rightarrow> Some (converted py_int py_float ps (JStr s))))"
    proof (cases "k \<in> boolean_names props")
      case True
      with d obtain ps where "map_of props k = Some ps" "has_type ps ''boolean''"
        by (auto simp: boolean_names_map_of)
      with nv bv True show ?thesis by (simp add: converted_other)
    next
      case False
      with nv bv show ?thesis by (auto split: option.splits)
    qed
  qed
  ultimately show ?thesis by blast
qed

section \<open>Example facts\<close>

lemma sample_builtins_ok: "builtins_ok sample_int sample_float"
  by (auto simp: builtins_ok_def sample_int_def sample_float_def caught_def split: option.splits)

lemma demo_props:
  "property_items demo_schema =
     Inr [(''name'', JObj [(''type'', JStr ''string''), (''default'', JStr ''hi'')]),
          (''n'', JObj [(''type'', JStr ''integer'')]),
          (''ratio'', JObj [(''type'', JStr ''number'')]),
          (''enabled'', JObj [(''type'', JStr ''boolean''), (''default'', JBool True)]),
          (''count'', JObj [(''type'', JStr ''integer''), (''default'', JStr ''many'')])]"
  by (simp add: demo_schema_def property_items_def get_properties_def items_def)

lemma demo_wf: "well_formed demo_schema"
  by (simp add: well_formed_def demo_props is_mapping_def)

lemma demo_booleans: "boolean_properties demo_schema = {''enabled''}"
  by (simp add: boolean_properties_def demo_props boolean_names_def has_type_def get_type_def)

lemma demo_names: "property_names demo_schema = {''name'', ''n'', ''ratio'', ''enabled'', ''count''}"
  by (simp add: property_names_def demo_props)

lemma sample_int_42: "sample_int (JStr ''42'') = Inr 42"
  by (simp add: sample_int_def decimal_def digit_of_def)

lemma sample_int_abc: "sample_int (JStr ''abc'') = Inl ValueError"
  by (simp add: sample_int_def decimal_def digit_of_def)

lemma sample_float_7: "sample_float (JStr ''7'') = Inr 7"
  by (simp add: sample_float_def decimal_def digit_of_def)

lemma sample_float_x: "sample_float (JStr ''x'') = Inl ValueError"
  by (simp add: sample_float_def decimal_def digit_of_def)

section \<open>Defaults\<close>

lemma dict_keys_dom: "dict_keys d = dom (map_of d)"
  by (simp add: dict_keys_def dom_map_of_conv_image_fst)

lemma defaults_step:
  "is_mapping ps \<Longrightarrow>
   defaults_loop ((p, ps) # rest) v =
     defaults_loop rest (case declared_default ps of None \<Rightarrow> v | Some d \<Rightarrow> dict_set p d v)"
proof -
  assume "is_mapping ps"
  then obtain kv where ps: "ps = JObj kv" by (cases ps) (auto simp: is_mapping_def)
  show ?thesis
  proof (cases "map_of kv ''default''")
    case None
    then have "''default'' \<notin> fst ` set kv" by (simp add: map_of_eq_None_iff)
    then show ?thesis using ps None
      by (simp add: contains_default_def dict_contains_def declared_default_def)
  next
    case (Some d)
    then have "''default'' \<in> fst ` set kv"
      using map_of_eq_None_iff [of kv "''default''"] by auto
    then show ?thesis using ps Some
      by (simp add: contains_default_def dict_contains_def declared_default_def subscript_default_def)
  qed
qed

lemma defaults_loop_result:
  "list_all (\<lambda>(k, ps). is_mapping ps) props \<Longrightarrow> distinct (map fst props) \<Longrightarrow>
   \<exists>vals. defaults_loop props v = Inr vals
      \<and> (\<forall>p. map_of vals p =
           (case map_of props p of
              None \<Rightarrow> map_of v p
            | Some ps \<Rightarrow> (case declared_default ps of None \<Rightarrow> map_of v p | Some d \<Rightarrow> Some d)))"
proof (induction props arbitrary: v)
  case Nil
  then show ?case by simp
next
  case (Cons a rest)
  obtain p ps where a: "a = (p, ps)" by (cases a)
  from Cons.prems a have m: "is_mapping ps" and rm: "list_all (\<lambda>(k, ps). is_mapping ps) rest"
    and pn: "p \<notin> fst ` set rest" and rd: "distinct (map fst rest)"
    by auto
  have pr: "map_of rest p = None" using pn by (simp add: map_of_eq_None_iff)
  let ?v1 = "case declared_default ps of None \<Rightarrow> v | Some d \<Rightarrow> dict_set p d v"
  from Cons.IH [OF rm rd, of ?v1] obtain vals where
    r: "defaults_loop rest ?v1 = Inr vals"
    and mv: "\<forall>q. map_of vals q =
           (case map_of rest q of
              None \<Rightarrow> map_of ?v1 q
            | Some ps \<Rightarrow> (case declared_default ps of None \<Rightarrow> map_of ?v1 q | Some d \<Rightarrow> Some d))"
    by blast
  have "defaults_loop (a # rest) v = Inr vals"
    using a r defaults_step [OF m] by simp
  moreover have "\<forall>q. map_of vals q =
           (case map_of (a # rest) q of
              None \<Rightarrow> map_of v q
            | Some ps \<Rightarrow> (case declared_default ps of None \<Rightarrow> map_of v q | Some d \<Rightarrow> Some d))"
    using mv a pr by (auto simp: map_of_dict_set split: option.splits)
  ultimately show ?case by blast
qed

lemma defaults_result:
  assumes wf: "well_formed S" and props: "property_items S = Inr props"
  shows "\<exists>vals. get_default_values_from_schema S = Inr vals
      \<and> (\<forall>p. map_of vals p =
           (case map_of props p of None \<Rightarrow> None | Some ps \<Rightarrow> declared_default ps))"
proof -
  from wf props have d: "distinct (map fst props)"
    and m: "list_all (\<lambda>(k, ps). is_mapping ps) props"
    by (simp_all add: well_formed_def)
  from defaults_loop_result [OF m d, of "[]"] obtain vals where
    l: "defaults_loop props [] = Inr vals"
    and mv: "\<forall>p. map_of vals p =
           (case map_of props p of
              None \<Rightarrow> map_of [] p
            | Some ps \<Rightarrow> (case declared_default ps of None \<Rightarrow> map_of [] p | Some d \<Rightarrow> Some d))"
    by blast
  have "get_default_values_from_schema S = Inr vals"
    using props l by (simp add: get_default_values_from_schema_def)
  moreover have "\<forall>p. map_of vals p =
           (case map_of props p of None \<Rightarrow> None | Some ps \<Rightarrow> declared_default ps)"
    using mv by (simp split: option.splits)
  ultimately show ?thesis by blast
qed

lemma well_formed_props: "well_formed S \<Longrightarrow> \<exists>props. property_items S = Inr props"
  by (cases "property_items S") (auto simp: well_formed_def)

lemma defaults_loop_error: "defaults_loop props v = Inl e \<Longrightarrow> e = TypeError"
proof (induction props arbitrary: v)
  case Nil
  then show ?case by simp
next
  case (Cons a rest)
  obtain p ps where a: "a = (p, ps)" by (cases a)
  have c: "contains_default ps = Inl e' \<Longrightarrow> e' = TypeError" for e'
    by (cases ps) (auto simp: contains_default_def)
  have s: "contains_default ps = Inr True \<Longrightarrow> subscript_default ps = Inl e' \<Longrightarrow> e' = TypeError" for e'
  proof (cases ps)
    case (JObj kv)
    assume "contains_default ps = Inr True" and "subscript_default ps = Inl e'"
    with JObj have "''default'' \<in> fst ` set kv" and "map_of kv ''default'' = None"
      by (auto simp: contains_default_def dict_contains_def subscript_default_def split: option.splits)
    then show ?thesis by (simp add: map_of_eq_None_iff)
  qed (auto simp: subscript_default_def)
  show ?case
  proof (cases "contains_default ps")
    case (Inl x)
    with Cons.prems a c [OF Inl] show ?thesis by simp
  next
    case (Inr b)
    show ?thesis
    proof (cases b)
      case False
      with Cons.prems a Inr have "defaults_loop rest v = Inl e" by simp
      then show ?thesis by (rule Cons.IH)
    next
      case True
      show ?thesis
      proof (cases "subscript_default ps")
        case (Inl x)
        with Cons.prems a Inr True s [of x] show ?thesis by simp
      next
        case (Inr d)
        with Cons.prems a \<open>contains_default ps = Inr b\<close> True
        have "defaults_loop rest (dict_set p d v) = Inl e" by simp
        then show ?thesis by (rule Cons.IH)
      qed
    qed
  qed
qed

lemma property_items_error: "property_items S = Inl e \<Longrightarrow> e = AttributeError"
  by (cases S) (auto simp: property_items_def get_properties_def items_def split: option.splits sum.splits json.splits)

lemma invalid_property_items: "structurally_invalid S \<Longrightarrow> property_items S = Inl AttributeError"
  by (cases S) (auto simp: structurally_invalid_def property_items_def get_properties_def items_def is_mapping_def split: option.splits json.splits)

section \<open>Properties of the two operations and of the loader\<close>

text \<open>
  Claim C6.  For a well-formed schema, \<^verbatim>\<open>get_default_values_from_schema\<close> returns a
  dictionary that maps exactly the property names whose property schema declares a
  \<open>default\<close> to that default, unchanged; properties without a default are absent, so
  the keys are a subset of the property names.  A schema without the key \<open>properties\<close>
  yields the empty dictionary and no error.
\<close>
theorem get_default_values_exact:
  "(well_formed S \<longrightarrow>
      (\<exists>props values.
         property_items S = Inr props
       \<and> get_default_values_from_schema S = Inr values
       \<and> (\<forall>p. map_of values p =
             (case map_of props p of None \<Rightarrow> None | Some ps \<Rightarrow> declared_default ps))
       \<and> dict_keys values = {p. \<exists>ps d. (p, ps) \<in> set props \<and> declared_default ps = Some d}
       \<and> dict_keys values \<subseteq> property_names S))
   \<and> (map_of kv ''properties'' = None \<longrightarrow> get_default_values_from_schema (JObj kv) = Inr [])"
proof (intro conjI impI)
  assume wf: "well_formed S"
  from well_formed_props [OF wf] obtain props where props: "property_items S = Inr props" by blast
  from wf props have d: "distinct (map fst props)" by (simp add: well_formed_def)
  from defaults_result [OF wf props] obtain vals where
    g: "get_default_values_from_schema S = Inr vals"
    and mv: "\<forall>p. map_of vals p =
             (case map_of props p of None \<Rightarrow> None | Some ps \<Rightarrow> declared_default ps)"
    by blast
  have k: "dict_keys vals = {p. \<exists>ps d. (p, ps) \<in> set props \<and> declared_default ps = Some d}"
  proof (rule set_eqI)
    fix p
    show "(p \<in> dict_keys vals) = (p \<in> {p. \<exists>ps d. (p, ps) \<in> set props \<and> declared_default ps = Some d})"
    proof
      assume "p \<in> dict_keys vals"
      then obtain x where "map_of vals p = Some x" by (auto simp: dict_keys_dom)
      with mv obtain ps where "map_of props p = Some ps" "declared_default ps = Some x"
        by (auto split: option.splits)
      then show "p \<in> {p. \<exists>ps d. (p, ps) \<in> set props \<and> declared_default ps = Some d}"
        by (auto dest: map_of_SomeD)
    next
      assume "p \<in> {p. \<exists>ps d. (p, ps) \<in> set props \<and> declared_default ps = Some d}"
      then obtain ps x where "(p, ps) \<in> set props" "declared_default ps = Some x" by blast
      with d have "map_of props p = Some ps" by (simp add: map_of_is_SomeI)
      with mv \<open>declared_default ps = Some x\<close> have "map_of vals p = Some x" by simp
      then show "p \<in> dict_keys vals" by (auto simp: dict_keys_dom)
    qed
  qed
  have "dict_keys vals \<subseteq> property_names S"
    using k props by (force simp: property_names_def)
  with props g mv k show "\<exists>props values.
         property_items S = Inr props
       \<and> get_default_values_from_schema S = Inr values
       \<and> (\<forall>p. map_of values p =
             (case map_of props p of None \<Rightarrow> None | Some ps \<Rightarrow> declared_default ps))
       \<and> dict_keys values = {p. \<exists>ps d. (p, ps) \<in> set props \<and> declared_default ps = Some d}
       \<and> dict_keys values \<subseteq> property_names S"
    by blast
next
  assume "map_of kv ''properties'' = None"
  then show "get_default_values_from_schema (JObj kv) = Inr []"
    by (simp add: get_default_values_from_schema_def property_items_def get_properties_def items_def)
qed

theorem get_default_values_exact_witness:
  "well_formed demo_schema
   \<and> map_of [(''title'', JStr ''Demo'')] ''properties'' = None
   \<and> get_default_values_from_schema demo_schema =
       Inr [(''name'', JStr ''hi''), (''enabled'', JBool True), (''count'', JStr ''many'')]
   \<and> get_default_values_from_schema (JObj [(''title'', JStr ''Demo'')] :: rat json) = Inr []"
proof -
  have e: "get_default_values_from_schema demo_schema =
       Inr [(''name'', JStr ''hi''), (''enabled'', JBool True), (''count'', JStr ''many'')]"
    by (simp add: get_default_values_from_schema_def demo_props contains_default_def
        subscript_default_def dict_contains_def)
  show ?thesis
    using get_default_values_exact [of demo_schema "[(''title'', JStr ''Demo'' :: rat json)]"] demo_wf e
    by simp
qed

text \<open>
  Claim C9.  The declared type plays no part in the extraction of defaults: whenever a
  property schema of a well-formed schema declares a default \<open>d\<close>, the result maps the
  property to \<open>d\<close> itself, whatever the property's \<open>type\<close> entry and whatever kind
  of value \<open>d\<close> is (the example is an integer-typed property with a string default).
\<close>
theorem default_copied_whatever_its_type:
  assumes "well_formed S" and "property_items S = Inr props"
    and "(p, JObj kv) \<in> set props" and "map_of kv ''default'' = Some d"
  shows "\<exists>values. get_default_values_from_schema S = Inr values \<and> map_of values p = Some d"
proof -
  from assms(1,2) have dst: "distinct (map fst props)" by (simp add: well_formed_def)
  with assms(3) have "map_of props p = Some (JObj kv)" by (simp add: map_of_is_SomeI)
  moreover have "declared_default (JObj kv) = Some d"
    using assms(4) by (simp add: declared_default_def)
  ultimately show ?thesis
    using defaults_result [OF assms(1,2)] by auto
qed

theorem default_copied_whatever_its_type_witness:
  "well_formed demo_schema
   \<and> has_type (JObj [(''type'', JStr ''integer''), (''default'', JStr ''many'')] :: rat json) ''integer''
   \<and> (\<exists>values. get_default_values_from_schema demo_schema = Inr values
         \<and> map_of values ''count'' = Some (JStr ''many''))"
  using default_copied_whatever_its_type [OF demo_wf demo_props,
      of "''count''" "[(''type'', JStr ''integer''), (''default'', JStr ''many'')]" "JStr ''many''"]
    demo_wf
  by (simp add: has_type_def get_type_def)

text \<open>
  Claim C1.  For a well-formed schema and any form data, the keys of the computed
  configuration are the keys of the form data together with the boolean-typed property
  names of the schema, and no others.
\<close>
theorem config_keys_exact:
  assumes "well_formed S" and "builtins_ok py_int py_float"
  shows "\<exists>cfg. submit_config py_int py_float S R = Inr cfg
      \<and> dict_keys cfg = dict_keys R \<union> boolean_properties S"
proof -
  from well_formed_props [OF assms(1)] obtain props where props: "property_items S = Inr props"
    by blast
  from submit_config_result [OF assms props, of R] show ?thesis
    using props by (auto simp: boolean_properties_def)
qed

theorem config_keys_exact_witness:
  "well_formed demo_schema \<and> builtins_ok sample_int sample_float
   \<and> (\<exists>cfg. submit_config sample_int sample_float demo_schema [(''n'', ''42''), (''extra'', ''x'')] = Inr cfg
         \<and> dict_keys cfg = {''n'', ''extra'', ''enabled''})"
  using config_keys_exact [OF demo_wf sample_builtins_ok, of "[(''n'', ''42''), (''extra'', ''x'')]"]
    demo_wf sample_builtins_ok
  by (simp add: demo_booleans dict_keys_def insert_commute)

text \<open>
  Claim C2.  For a boolean-typed property \<open>b\<close> of a well-formed schema and any form
  data (the empty one included), the configuration has the key \<open>b\<close>, and its value is
  the boolean "\<open>b\<close> is a key of the form data"; the posted string plays no part.
\<close>
theorem submit_config_boolean:
  assumes "well_formed S" and "builtins_ok py_int py_float" and "b \<in> boolean_properties S"
  shows "\<exists>cfg. submit_config py_int py_float S R = Inr cfg
      \<and> map_of cfg b = Some (JBool (b \<in> dict_keys R))"
proof -
  from well_formed_props [OF assms(1)] obtain props where props: "property_items S = Inr props"
    by blast
  from assms(3) props have "b \<in> boolean_names props" by (simp add: boolean_properties_def)
  with submit_config_result [OF assms(1,2) props, of R] show ?thesis by auto
qed

theorem submit_config_boolean_witness:
  "well_formed demo_schema \<and> builtins_ok sample_int sample_float
   \<and> ''enabled'' \<in> boolean_properties demo_schema
   \<and> (\<exists>cfg. submit_config sample_int sample_float demo_schema [(''enabled'', ''off'')] = Inr cfg
         \<and> map_of cfg ''enabled'' = Some (JBool True))
   \<and> (\<exists>cfg. submit_config sample_int sample_float demo_schema [] = Inr cfg
         \<and> map_of cfg ''enabled'' = Some (JBool False))"
proof -
  have b: "''enabled'' \<in> boolean_properties demo_schema" by (simp add: demo_booleans)
  show ?thesis
    using submit_config_boolean [OF demo_wf sample_builtins_ok b, of "[(''enabled'', ''off'')]"]
      submit_config_boolean [OF demo_wf sample_builtins_ok b, of "[]"]
      demo_wf sample_builtins_ok b
    by (simp add: dict_keys_def)
qed

text \<open>
  Claim C3.  For a property \<open>p\<close> whose key is in the form data with the string \<open>s\<close>:
  if \<open>p\<close> has type \<open>integer\<close>, the configuration maps \<open>p\<close> to the integer that
  \<^verbatim>\<open>int\<close> returns on \<open>s\<close>, and to \<open>s\<close> itself when \<^verbatim>\<open>int\<close> raises; the
  operation returns in both cases.  The same holds for type \<open>number\<close> with \<^verbatim>\<open>float\<close>.
\<close>
theorem submit_config_numeric:
  assumes "well_formed S" and "builtins_ok py_int py_float"
    and "property_items S = Inr props" and "(p, ps) \<in> set props" and "map_of R p = Some s"
  shows "\<exists>cfg. submit_config py_int py_float S R = Inr cfg
      \<and> (has_type ps ''integer'' \<longrightarrow>
           (\<forall>n. py_int (JStr s) = Inr n \<longrightarrow> map_of cfg p = Some (JInt n))
         \<and> (\<forall>e. py_int (JStr s) = Inl e \<longrightarrow> map_of cfg p = Some (JStr s)))
      \<and> (has_type ps ''number'' \<longrightarrow>
           (\<forall>x. py_float (JStr s) = Inr x \<longrightarrow> map_of cfg p = Some (JFloat x))
         \<and> (\<forall>e. py_float (JStr s) = Inl e \<longrightarrow> map_of cfg p = Some (JStr s)))"
proof -
  from assms(1,3) have dst: "distinct (map fst props)" by (simp add: well_formed_def)
  with assms(4) have mp: "map_of props p = Some ps" by (simp add: map_of_is_SomeI)
  from submit_config_result [OF assms(1,2,3), of R] obtain cfg where
    c: "submit_config py_int py_float S R = Inr cfg"
    and v: "\<forall>k. map_of cfg k =
           (if k \<in> boolean_names props then Some (JBool (k \<in> dict_keys R))
            else case map_of R k of
                   None \<Rightarrow> None
                 | Some s \<Rightarrow>
                     (case map_of props k of
                        None \<Rightarrow> Some (JStr s)
                      | Some ps \<Rightarrow> Some (converted py_int py_float ps (JStr s))))"
    by blast
  have nb: "has_type ps ''integer'' \<or> has_type ps ''number'' \<Longrightarrow> p \<notin> boolean_names props"
    using mp dst by (auto simp: boolean_names_map_of has_type_def)
  have i: "has_type ps ''integer'' \<Longrightarrow>
           map_of cfg p = Some (case py_int (JStr s) of Inr n \<Rightarrow> JInt n | Inl e \<Rightarrow> JStr s)"
    using v nb mp assms(5) by (simp add: converted_def)
  have f: "has_type ps ''number'' \<Longrightarrow>
           map_of cfg p = Some (case py_float (JStr s) of Inr x \<Rightarrow> JFloat x | Inl e \<Rightarrow> JStr s)"
    using v nb mp assms(5) by (auto simp: converted_def has_type_def)
  show ?thesis using c i f by auto
qed

theorem submit_config_numeric_witness:
  "well_formed demo_schema \<and> builtins_ok sample_int sample_float
   \<and> (\<exists>cfg. submit_config sample_int sample_float demo_schema
               [(''n'', ''42''), (''ratio'', ''x'')] = Inr cfg
         \<and> map_of cfg ''n'' = Some (JInt 42))
   \<and> (\<exists>cfg. submit_config sample_int sample_float demo_schema
               [(''n'', ''abc''), (''ratio'', ''7'')] = Inr cfg
         \<and> map_of cfg ''n'' = Some (JStr ''abc''))
   \<and> (\<exists>cfg. submit_config sample_int sample_float demo_schema
               [(''n'', ''abc''), (''ratio'', ''7'')] = Inr cfg
         \<and> map_of cfg ''ratio'' = Some (JFloat 7))
   \<and> (\<exists>cfg. submit_config sample_int sample_float demo_schema
               [(''n'', ''42''), (''ratio'', ''x'')] = Inr cfg
         \<and> map_of cfg ''ratio'' = Some (JStr ''x''))"
  using
    submit_config_numeric [OF demo_wf sample_builtins_ok demo_props,
      of "''n''" "JObj [(''type'', JStr ''integer'')]" "[(''n'', ''42''), (''ratio'', ''x'')]" "''42''"]
    submit_config_numeric [OF demo_wf sample_builtins_ok demo_props,
      of "''n''" "JObj [(''type'', JStr ''integer'')]" "[(''n'', ''abc''), (''ratio'', ''7'')]" "''abc''"]
    submit_config_numeric [OF demo_wf sample_builtins_ok demo_props,
      of "''ratio''" "JObj [(''type'', JStr ''number'')]" "[(''n'', ''abc''), (''ratio'', ''7'')]" "''7''"]
    submit_config_numeric [OF demo_wf sample_builtins_ok demo_props,
      of "''ratio''" "JObj [(''type'', JStr ''number'')]" "[(''n'', ''42''), (''ratio'', ''x'')]" "''x''"]
    demo_wf sample_builtins_ok
  by (simp add: has_type_def get_type_def sample_int_42 sample_int_abc sample_float_7 sample_float_x)

text \<open>
  Claim C4 as stated fails: the handler starts from a copy of the whole form data, so a
  posted key that is no property name stays in the configuration.  With a schema that
  has no properties and the form data \<open>{"x": "1"}\<close> the configuration is
  \<open>{"x": "1"}\<close>, whose key set is not the (empty) set that the claim gives.
\<close>
theorem unknown_key_kept:
  "submit_config sample_int sample_float (JObj [(''properties'', JObj [])]) [(''x'', ''1'')]
     = Inr [(''x'', JStr ''1'')]
   \<and> dict_keys [(''x'', JStr ''1'' :: rat json)] \<noteq>
       boolean_properties (JObj [(''properties'', JObj [])] :: rat json)
       \<union> (dict_keys [(''x'', ''1'')] \<inter> property_names (JObj [(''properties'', JObj [])] :: rat json))"
  by (simp add: submit_config_def property_items_def get_properties_def items_def
      boolean_properties_def boolean_names_def property_names_def dict_keys_def)

text \<open>
  Claim C4, amended.  The key set of the configuration contains the boolean-typed
  property names and the posted keys that are property names; the keys beyond these are
  exactly the posted keys that are no property names.  When every posted key is a
  property name, the key set is the one the claim gives.
\<close>
theorem config_keys_partition:
  assumes "well_formed S" and "builtins_ok py_int py_float"
  shows "\<exists>cfg. submit_config py_int py_float S R = Inr cfg
      \<and> boolean_properties S \<union> (dict_keys R \<inter> property_names S) \<subseteq> dict_keys cfg
      \<and> dict_keys cfg - (boolean_properties S \<union> (dict_keys R \<inter> property_names S))
          = dict_keys R - property_names S
      \<and> (dict_keys R \<subseteq> property_names S \<longrightarrow>
           dict_keys cfg = boolean_properties S \<union> (dict_keys R \<inter> property_names S))"
proof -
  from well_formed_props [OF assms(1)] obtain props where props: "property_items S = Inr props"
    by blast
  have sub: "boolean_properties S \<subseteq> property_names S"
    using props boolean_names_subset [of props]
    by (simp add: boolean_properties_def property_names_def)
  from submit_config_result [OF assms props, of R] obtain cfg where
    c: "submit_config py_int py_float S R = Inr cfg"
    and k: "dict_keys cfg = dict_keys R \<union> boolean_properties S"
    using props by (auto simp: boolean_properties_def)
  show ?thesis using c k sub by blast
qed

theorem config_keys_partition_witness:
  "well_formed demo_schema \<and> builtins_ok sample_int sample_float
   \<and> (\<exists>cfg. submit_config sample_int sample_float demo_schema [(''n'', ''42''), (''extra'', ''x'')] = Inr cfg
         \<and> {''enabled'', ''n''} \<subseteq> dict_keys cfg
         \<and> dict_keys cfg - {''enabled'', ''n''} = {''extra''})"
proof -
  have a: "boolean_properties demo_schema
           \<union> (dict_keys [(''n'', ''42''), (''extra'', ''x'')] \<inter> property_names demo_schema)
         = {''enabled'', ''n''}"
    by (auto simp: demo_booleans demo_names dict_keys_def)
  have b: "dict_keys [(''n'', ''42''), (''extra'', ''x'')] - property_names demo_schema = {''extra''}"
    by (auto simp: demo_names dict_keys_def)
  from config_keys_partition [OF demo_wf sample_builtins_ok, of "[(''n'', ''42''), (''extra'', ''x'')]"]
  obtain cfg where
    c: "submit_config sample_int sample_float demo_schema [(''n'', ''42''), (''extra'', ''x'')] = Inr cfg"
    and s: "boolean_properties demo_schema
           \<union> (dict_keys [(''n'', ''42''), (''extra'', ''x'')] \<inter> property_names demo_schema)
          \<subseteq> dict_keys cfg"
    and m: "dict_keys cfg - (boolean_properties demo_schema
           \<union> (dict_keys [(''n'', ''42''), (''extra'', ''x'')] \<inter> property_names demo_schema))
          = dict_keys [(''n'', ''42''), (''extra'', ''x'')] - property_names demo_schema"
    by blast
  from s have s': "{''enabled'', ''n''} \<subseteq> dict_keys cfg" unfolding a .
  from m have m': "dict_keys cfg - {''enabled'', ''n''} = {''extra''}" unfolding a b .
  from c s' m' have "\<exists>cfg. submit_config sample_int sample_float demo_schema [(''n'', ''42''), (''extra'', ''x'')] = Inr cfg
         \<and> {''enabled'', ''n''} \<subseteq> dict_keys cfg
         \<and> dict_keys cfg - {''enabled'', ''n''} = {''extra''}"
    by simp
  with demo_wf sample_builtins_ok show ?thesis by simp
qed

text \<open>
  Claim C10.  A posted key that is no property name of the schema is passed through:
  the configuration maps it to the posted string, unchanged.
\<close>
theorem submit_config_unknown_passthrough:
  assumes "well_formed S" and "builtins_ok py_int py_float"
    and "map_of R k = Some s" and "k \<notin> property_names S"
  shows "\<exists>cfg. submit_config py_int py_float S R = Inr cfg \<and> map_of cfg k = Some (JStr s)"
proof -
  from well_formed_props [OF assms(1)] obtain props where props: "property_items S = Inr props"
    by blast
  from assms(4) props have n: "k \<notin> fst ` set props" by (simp add: property_names_def)
  then have mp: "map_of props k = None" by (simp add: map_of_eq_None_iff)
  from n boolean_names_subset [of props] have nb: "k \<notin> boolean_names props" by blast
  from submit_config_result [OF assms(1,2) props, of R] show ?thesis
    using mp nb assms(3) by auto
qed

theorem submit_config_unknown_passthrough_witness:
  "well_formed demo_schema \<and> builtins_ok sample_int sample_float
   \<and> map_of [(''n'', ''42''), (''extra'', ''12'')] ''extra'' = Some ''12''
   \<and> ''extra'' \<notin> property_names demo_schema
   \<and> (\<exists>cfg. submit_config sample_int sample_float demo_schema [(''n'', ''42''), (''extra'', ''12'')] = Inr cfg
         \<and> map_of cfg ''extra'' = Some (JStr ''12''))"
proof -
  have m: "map_of [(''n'', ''42''), (''extra'', ''12'')] ''extra'' = Some ''12''" by simp
  have n: "''extra'' \<notin> property_names demo_schema" by (simp add: demo_names)
  show ?thesis
    using submit_config_unknown_passthrough [OF demo_wf sample_builtins_ok m n]
      demo_wf sample_builtins_ok m n
    by blast
qed

text \<open>
  Claim C5 as stated fails on the kind of error: on a schema whose \<open>properties\<close> is
  a string, both operations raise \<^verbatim>\<open>AttributeError\<close> (a string has no method
  \<^verbatim>\<open>items\<close>), not \<open>SchemaFormatError\<close>.
\<close>
theorem malformed_schema_error_kind:
  "get_default_values_from_schema (JObj [(''properties'', JStr ''abc'')] :: rat json) = Inl AttributeError
   \<and> get_default_values_from_schema (JObj [(''properties'', JStr ''abc'')] :: rat json) \<noteq> Inl SchemaFormatError
   \<and> submit_config sample_int sample_float (JObj [(''properties'', JStr ''abc'')]) [] = Inl AttributeError
   \<and> submit_config sample_int sample_float (JObj [(''properties'', JStr ''abc'')]) [] \<noteq> Inl SchemaFormatError"
  by (simp add: get_default_values_from_schema_def submit_config_def property_items_def
      get_properties_def items_def)

text \<open>
  Claim C5, amended.  On a well-formed schema both operations return, whatever the
  posted strings are (given builtins that raise only caught exceptions on strings).
  On a schema document that is no dictionary, or whose \<open>properties\<close> is no
  dictionary, both fail with \<^verbatim>\<open>AttributeError\<close>.  The extraction of defaults never
  fails with \<open>SchemaFormatError\<close>.
\<close>
theorem schema_errors:
  "(well_formed S \<and> builtins_ok py_int py_float \<longrightarrow>
      (\<exists>values. get_default_values_from_schema S = Inr values)
    \<and> (\<exists>cfg. submit_config py_int py_float S R = Inr cfg))
   \<and> (structurally_invalid S \<longrightarrow>
        get_default_values_from_schema S = Inl AttributeError
      \<and> submit_config py_int py_float S R = Inl AttributeError)
   \<and> get_default_values_from_schema S \<noteq> Inl SchemaFormatError"
proof (intro conjI impI)
  assume a: "well_formed S \<and> builtins_ok py_int py_float"
  from well_formed_props [of S] a obtain props where props: "property_items S = Inr props"
    by blast
  from defaults_result [OF _ props] a show "\<exists>values. get_default_values_from_schema S = Inr values"
    by blast
  from submit_config_result [OF _ _ props, of py_int py_float R] a
  show "\<exists>cfg. submit_config py_int py_float S R = Inr cfg" by blast
next
  assume "structurally_invalid S"
  then have p: "property_items S = Inl AttributeError" by (rule invalid_property_items)
  from p show "get_default_values_from_schema S = Inl AttributeError"
    by (simp add: get_default_values_from_schema_def)
  from p show "submit_config py_int py_float S R = Inl AttributeError"
    by (simp add: submit_config_def)
next
  show "get_default_values_from_schema S \<noteq> Inl SchemaFormatError"
  proof
    assume e: "get_default_values_from_schema S = Inl SchemaFormatError"
    show False
    proof (cases "property_items S")
      case (Inl x)
      with e property_items_error [OF Inl] show False
        by (simp add: get_default_values_from_schema_def)
    next
      case (Inr props)
      with e have "defaults_loop props [] = Inl SchemaFormatError"
        by (simp add: get_default_values_from_schema_def)
      from defaults_loop_error [OF this] show False by simp
    qed
  qed
qed

theorem schema_errors_witness:
  "well_formed demo_schema \<and> builtins_ok sample_int sample_float
   \<and> structurally_invalid (JObj [(''properties'', JStr ''abc'')] :: rat json)
   \<and> (\<exists>values. get_default_values_from_schema demo_schema = Inr values)
   \<and> (\<exists>cfg. submit_config sample_int sample_float demo_schema [(''n'', ''abc'')] = Inr cfg)
   \<and> get_default_values_from_schema (JObj [(''properties'', JStr ''abc'')] :: rat json) = Inl AttributeError
   \<and> submit_config sample_int sample_float (JObj [(''properties'', JStr ''abc'')]) [(''n'', ''abc'')]
       = Inl AttributeError"
proof -
  have i: "structurally_invalid (JObj [(''properties'', JStr ''abc'')] :: rat json)"
    by (simp add: structurally_invalid_def is_mapping_def)
  show ?thesis
    using schema_errors [of demo_schema sample_int sample_float "[(''n'', ''abc'')]"]
      schema_errors [of "JObj [(''properties'', JStr ''abc'')]" sample_int sample_float "[(''n'', ''abc'')]"]
      demo_wf sample_builtins_ok i
    by blast
qed

text \<open>
  Claim C8 as stated fails for a path that exists but cannot be opened: the loader
  tests only \<^verbatim>\<open>exists()\<close>, and the error of \<^verbatim>\<open>open\<close> (here \<^verbatim>\<open>PermissionError\<close>)
  is what the caller sees.
\<close>
theorem load_unreadable_not_missing:
  "open_read locked_env ''schema.json'' = Inl PermissionError
   \<and> load_test_schema locked_env = Inl PermissionError
   \<and> load_test_schema locked_env \<noteq> Inl FileNotFoundError"
  by (simp add: locked_env_def load_test_schema_def)

text \<open>
  Claim C8, amended.  When the path does not exist, the loader fails with
  \<^verbatim>\<open>FileNotFoundError\<close>.  When the path exists and \<^verbatim>\<open>open\<close> raises an error, the
  loader fails with that error.
\<close>
theorem load_test_schema_failures:
  assumes "SCHEMA_PATH env = Some p"
  shows "(path_exists env p = Inr False \<longrightarrow> load_test_schema env = Inl FileNotFoundError)
       \<and> (path_exists env p = Inr True \<longrightarrow> open_read env p = Inl e \<longrightarrow> load_test_schema env = Inl e)"
  using assms by (simp add: load_test_schema_def)

theorem load_test_schema_failures_witness:
  "SCHEMA_PATH missing_env = Some ''schema.json''
   \<and> path_exists missing_env ''schema.json'' = Inr False
   \<and> load_test_schema missing_env = Inl FileNotFoundError
   \<and> SCHEMA_PATH locked_env = Some ''schema.json''
   \<and> path_exists locked_env ''schema.json'' = Inr True
   \<and> open_read locked_env ''schema.json'' = Inl PermissionError
   \<and> load_test_schema locked_env = Inl PermissionError"
proof -
  have m: "SCHEMA_PATH missing_env = Some ''schema.json''" by (simp add: missing_env_def)
  have l: "SCHEMA_PATH locked_env = Some ''schema.json''" by (simp add: locked_env_def)
  have a: "path_exists missing_env ''schema.json'' = Inr False" by (simp add: missing_env_def)
  have b: "path_exists locked_env ''schema.json'' = Inr True" by (simp add: locked_env_def)
  have c: "open_read locked_env ''schema.json'' = Inl PermissionError" by (simp add: locked_env_def)
  show ?thesis
    using load_test_schema_failures [OF m, of PermissionError]
      load_test_schema_failures [OF l, of PermissionError] m l a b c
    by simp
qed

section \<open>Refinement: the store model computes the same defaults\<close>

lemma rep_bound: "rep h a j \<Longrightarrow> a < length h"
  by (cases j) auto

lemma extends_length:
  assumes "take (length h0) h = h0"
  shows "length h0 \<le> length h"
proof -
  have "length (take (length h0) h) = length h0" using assms by simp
  then show ?thesis by (auto simp: min_def split: if_splits)
qed

lemma extends_nth:
  assumes "take (length h0) h = h0" and "a < length h0"
  shows "h ! a = h0 ! a"
proof -
  have "take (length h0) h ! a = h ! a" using assms(2) by simp
  then show ?thesis using assms(1) by simp
qed

lemma rep_mono:
  shows "take (length h0) h = h0 \<Longrightarrow> rep h0 a j \<Longrightarrow> rep h a j"
    and "take (length h0) h = h0 \<Longrightarrow> rep_list h0 ads js \<Longrightarrow> rep_list h ads js"
    and "take (length h0) h = h0 \<Longrightarrow> rep_items h0 kas kjs \<Longrightarrow> rep_items h kas kjs"
proof (induction h0 a j and h0 ads js and h0 kas kjs
       arbitrary: h and h and h rule: rep_rep_list_rep_items.induct)
  case (1 h0 a)
  then show ?case using extends_nth [of h0 h a] extends_length [of h0 h] by auto
next
  case (2 h0 a b)
  then show ?case using extends_nth [of h0 h a] extends_length [of h0 h] by auto
next
  case (3 h0 a n)
  then show ?case using extends_nth [of h0 h a] extends_length [of h0 h] by auto
next
  case (4 h0 a x)
  then show ?case using extends_nth [of h0 h a] extends_length [of h0 h] by auto
next
  case (5 h0 a s)
  then show ?case using extends_nth [of h0 h a] extends_length [of h0 h] by auto
next
  case (6 h0 a js)
  then show ?case using extends_nth [of h0 h a] extends_length [of h0 h]
    by (auto split: obj.splits)
next
  case (7 h0 a kjs)
  then show ?case using extends_nth [of h0 h a] extends_length [of h0 h]
    by (auto split: obj.splits)
next
  case (8 h0 ads)
  then show ?case by simp
next
  case (9 h0 ads j js)
  then show ?case by (auto split: list.splits)
next
  case (10 h0 kas)
  then show ?case by simp
next
  case (11 h0 kas k j kjs)
  then show ?case by (auto split: list.splits)
qed

lemma rep_items_Cons:
  "rep_items h kas ((k, j) # kjs) =
     (\<exists>a kas'. kas = (k, a) # kas' \<and> rep h a j \<and> rep_items h kas' kjs)"
  by (auto split: list.splits)

lemma rep_items_lookup:
  "rep_items h kas kjs \<Longrightarrow>
   (case map_of kjs k of
      None \<Rightarrow> map_of kas k = None
    | Some j \<Rightarrow> (\<exists>a. map_of kas k = Some a \<and> rep h a j))"
proof (induction kjs arbitrary: kas)
  case Nil
  then show ?case by simp
next
  case (Cons x kjs)
  obtain k' j' where x: "x = (k', j')" by (cases x)
  from Cons.prems x have "rep_items h kas ((k', j') # kjs)" by simp
  then obtain a kas' where
    kas: "kas = (k', a) # kas'" and r: "rep h a j'" and rs: "rep_items h kas' kjs"
    unfolding rep_items_Cons by blast
  from Cons.IH [OF rs] show ?case using x kas r by (auto split: option.splits)
qed

lemma rep_items_keys: "rep_items h kas kjs \<Longrightarrow> map fst kas = map fst kjs"
proof (induction kjs arbitrary: kas)
  case Nil
  then show ?case by simp
next
  case (Cons x kjs)
  obtain k' j' where x: "x = (k', j')" by (cases x)
  from Cons.prems x have "rep_items h kas ((k', j') # kjs)" by simp
  then obtain a kas' where
    kas: "kas = (k', a) # kas'" and rs: "rep_items h kas' kjs"
    unfolding rep_items_Cons by blast
  from Cons.IH [OF rs] show ?case using x kas by simp
qed

lemma rep_str: "rep h a j \<Longrightarrow> (h ! a = OStr s) = (j = JStr s)"
  by (cases j) (auto split: obj.splits)

lemma rep_list_str:
  "rep_list h ads js \<Longrightarrow> list_ex (\<lambda>a. h ! a = OStr s) ads = (JStr s \<in> set js)"
proof (induction js arbitrary: ads)
  case Nil
  then show ?case by simp
next
  case (Cons j js)
  from Cons.prems obtain a ads' where
    ads: "ads = a # ads'" and r: "rep h a j" and rs: "rep_list h ads' js"
    by (auto split: list.splits)
  from Cons.IH [OF rs] rep_str [OF r, of s] show ?case using ads by auto
qed

lemma contains_default_rep:
  "rep h pa ps \<Longrightarrow> contains_default_h h pa = contains_default ps"
proof (cases ps)
  case (JList js)
  assume "rep h pa ps"
  with JList obtain ads where "h ! pa = OList ads" "rep_list h ads js"
    by (auto split: obj.splits)
  then show ?thesis using JList rep_list_str [of h ads js "''default''"]
    by (simp add: contains_default_h_def contains_default_def)
next
  case (JObj kjs)
  assume "rep h pa ps"
  with JObj obtain kas where "h ! pa = ODict kas" "rep_items h kas kjs"
    by (auto split: obj.splits)
  then show ?thesis using JObj rep_items_keys [of h kas kjs]
    by (simp add: contains_default_h_def contains_default_def dict_contains_def)
qed (auto simp: contains_default_h_def contains_default_def)

lemma subscript_default_rep:
  "rep h pa ps \<Longrightarrow>
   (case subscript_default ps of
      Inl e \<Rightarrow> subscript_default_h h pa = Inl e
    | Inr d \<Rightarrow> (\<exists>da. subscript_default_h h pa = Inr da \<and> rep h da d))"
proof (cases ps)
  case (JObj kjs)
  assume "rep h pa ps"
  with JObj obtain kas where "h ! pa = ODict kas" "rep_items h kas kjs"
    by (auto split: obj.splits)
  then show ?thesis using JObj rep_items_lookup [of h kas kjs "''default''"]
    by (auto simp: subscript_default_h_def subscript_default_def split: option.splits)
qed (auto simp: subscript_default_h_def subscript_default_def split: obj.splits)

lemma rep_items_dict_set:
  "rep_items h vd vals \<Longrightarrow> rep h da d \<Longrightarrow> rep_items h (dict_set p da vd) (dict_set p d vals)"
proof (induction vals arbitrary: vd)
  case Nil
  then show ?case by simp
next
  case (Cons x vals)
  obtain k' j' where x: "x = (k', j')" by (cases x)
  from Cons.prems(1) x have "rep_items h vd ((k', j') # vals)" by simp
  then obtain a vd' where
    vd: "vd = (k', a) # vd'" and r: "rep h a j'" and rs: "rep_items h vd' vals"
    unfolding rep_items_Cons by blast
  from Cons.IH [OF rs Cons.prems(2)] show ?case using x vd r rs Cons.prems(2) by simp
qed

lemma same_cell_subscript: "h ! pa = h0 ! pa \<Longrightarrow> subscript_default_h h pa = subscript_default_h h0 pa"
  by (simp add: subscript_default_h_def)

lemma defaults_loop_h_refines:
  "rep_items h0 kas kjs \<Longrightarrow> take (length h0) h = h0 \<Longrightarrow> length h0 \<le> va \<Longrightarrow> va < length h \<Longrightarrow>
   h ! va = ODict vd \<Longrightarrow> rep_items h0 vd vals \<Longrightarrow>
   \<exists>h' r. defaults_loop_h kas va h = (h', r) \<and> take (length h0) h' = h0 \<and> length h' = length h
     \<and> (case defaults_loop kjs vals of
          Inl e \<Rightarrow> r = Inl e
        | Inr vals' \<Rightarrow> r = Inr () \<and> (\<exists>vd'. h' ! va = ODict vd' \<and> rep_items h0 vd' vals'))"
proof (induction kjs arbitrary: kas h vd vals)
  case Nil
  then show ?case by simp
next
  case (Cons x kjs)
  obtain k ps where x: "x = (k, ps)" by (cases x)
  from Cons.prems(1) x have "rep_items h0 kas ((k, ps) # kjs)" by simp
  then obtain pa kas' where
    kas: "kas = (k, pa) # kas'" and r0: "rep h0 pa ps" and rs: "rep_items h0 kas' kjs"
    unfolding rep_items_Cons by blast
  have r: "rep h pa ps" using rep_mono(1) [OF Cons.prems(2) r0] .
  have c: "contains_default_h h pa = contains_default ps" using contains_default_rep [OF r] .
  have cell: "h ! pa = h0 ! pa" using extends_nth [OF Cons.prems(2) rep_bound [OF r0]] .
  show ?case
  proof (cases "contains_default ps")
    case (Inl e)
    then show ?thesis using c kas x Cons.prems(2) by simp
  next
    case (Inr b)
    show ?thesis
    proof (cases b)
      case False
      from Cons.IH [OF rs Cons.prems(2,3,4,5,6)] show ?thesis
        using c kas x Inr False by simp
    next
      case True
      show ?thesis
      proof (cases "subscript_default ps")
        case (Inl e)
        with subscript_default_rep [OF r0] have "subscript_default_h h0 pa = Inl e" by simp
        then have "subscript_default_h h pa = Inl e" using same_cell_subscript [OF cell] by simp
        then show ?thesis using c kas x \<open>contains_default ps = Inr b\<close> True Inl Cons.prems(2)
          by simp
      next
        case (Inr d)
        with subscript_default_rep [OF r0] obtain da where
          s0: "subscript_default_h h0 pa = Inr da" and rd: "rep h0 da d" by auto
        have s: "subscript_default_h h pa = Inr da" using s0 same_cell_subscript [OF cell] by simp
        let ?h1 = "store_item va k da h"
        have h1: "?h1 = h[va := ODict (dict_set k da vd)]"
          using Cons.prems(5) by (simp add: store_item_def)
        have p2: "take (length h0) ?h1 = h0" using Cons.prems(2,3) h1 by simp
        have p4: "va < length ?h1" using Cons.prems(4) h1 by simp
        have p5: "?h1 ! va = ODict (dict_set k da vd)" using Cons.prems(4) h1 by simp
        have p6: "rep_items h0 (dict_set k da vd) (dict_set k d vals)"
          using rep_items_dict_set [OF Cons.prems(6) rd] .
        from Cons.IH [OF rs p2 Cons.prems(3) p4 p5 p6] show ?thesis
          using c kas x \<open>contains_default ps = Inr b\<close> True Inr s h1 by simp
      qed
    qed
  qed
qed

lemma heap_call_refines:
  assumes r: "rep h a S"
  shows "\<exists>h' res. get_default_values_from_schema_h h a = (h', res) \<and> take (length h) h' = h
     \<and> (case get_default_values_from_schema S of
          Inl e \<Rightarrow> res = Inl e
        | Inr vals \<Rightarrow> (\<exists>va. res = Inr va \<and> rep h' va (JObj vals)))"
proof -
  let ?h1 = "h @ [ODict []]"
  let ?h2 = "?h1 @ [ODict []]"
  have a: "a < length h" using rep_bound [OF r] .
  have c1: "?h1 ! a = h ! a" using a by (simp add: nth_append)
  show ?thesis
  proof (cases "\<exists>kjs. S = JObj kjs")
    case False
    then have "\<forall>kas. h ! a \<noteq> ODict kas" using r by (cases S) auto
    moreover have "get_default_values_from_schema S = Inl AttributeError"
      using False
      by (cases S) (auto simp: get_default_values_from_schema_def property_items_def get_properties_def)
    ultimately show ?thesis using c1
      by (auto simp: get_default_values_from_schema_h_def alloc_def split: obj.splits)
  next
    case True
    then obtain kjs where S: "S = JObj kjs" by blast
    with r obtain kas where ha: "h ! a = ODict kas" and ri: "rep_items h kas kjs"
      by (auto split: obj.splits)
    show ?thesis
    proof (cases "map_of kjs ''properties''")
      case None
      with rep_items_lookup [OF ri, of "''properties''"] have n: "map_of kas ''properties'' = None"
        by simp
      have "get_default_values_from_schema S = Inr []"
        using S None
        by (simp add: get_default_values_from_schema_def property_items_def get_properties_def items_def)
      moreover have "get_default_values_from_schema_h h a = (?h2, Inr (length h))"
        using c1 ha n
        by (simp add: get_default_values_from_schema_h_def alloc_def nth_append)
      moreover have "rep ?h2 (length h) (JObj [])" by (simp add: nth_append)
      ultimately show ?thesis by simp
    next
      case (Some pv)
      with rep_items_lookup [OF ri, of "''properties''"] obtain pa where
        m: "map_of kas ''properties'' = Some pa" and rp: "rep h pa pv" by auto
      have pa: "pa < length h" using rep_bound [OF rp] .
      have c2: "?h2 ! pa = h ! pa" using pa by (simp add: nth_append)
      show ?thesis
      proof (cases "\<exists>props. pv = JObj props")
        case False
        then have "\<forall>pas. h ! pa \<noteq> ODict pas" using rp by (cases pv) auto
        moreover have "get_default_values_from_schema S = Inl AttributeError"
          using False S Some
          by (cases pv) (auto simp: get_default_values_from_schema_def property_items_def
              get_properties_def items_def)
        ultimately show ?thesis using c1 c2 ha m
          by (auto simp: get_default_values_from_schema_h_def alloc_def split: obj.splits)
      next
        case True
        then obtain props where pv: "pv = JObj props" by blast
        with rp obtain pas where hp: "h ! pa = ODict pas" and rps: "rep_items h pas props"
          by (auto split: obj.splits)
        have e: "take (length h) ?h2 = h" by simp
        have v: "?h2 ! length h = ODict []" by (simp add: nth_append)
        have g: "get_default_values_from_schema S = defaults_loop props []"
          using S Some pv
          by (simp add: get_default_values_from_schema_def property_items_def get_properties_def items_def)
        from defaults_loop_h_refines [OF rps e, of "length h" "[]" "[]"] v
        obtain h' res where
          l: "defaults_loop_h pas (length h) ?h2 = (h', res)"
          and t: "take (length h) h' = h" and len: "length h' = length ?h2"
          and c: "case defaults_loop props [] of
                    Inl e \<Rightarrow> res = Inl e
                  | Inr vals' \<Rightarrow> res = Inr () \<and> (\<exists>vd'. h' ! length h = ODict vd' \<and> rep_items h vd' vals')"
          by auto
        show ?thesis
        proof (cases "defaults_loop props []")
          case (Inl e)
          with c have "res = Inl e" by simp
          then have "get_default_values_from_schema_h h a = (h', Inl e)"
            using c1 c2 ha m hp l
            by (simp add: get_default_values_from_schema_h_def alloc_def)
          then show ?thesis using t g Inl by simp
        next
          case (Inr vals')
          with c obtain vd' where res: "res = Inr ()"
            and hv: "h' ! length h = ODict vd'" and rv: "rep_items h vd' vals'" by auto
          have "get_default_values_from_schema_h h a = (h', Inr (length h))"
            using res c1 c2 ha m hp l
            by (simp add: get_default_values_from_schema_h_def alloc_def)
          moreover have "rep h' (length h) (JObj vals')"
            using hv len rep_mono(3) [OF t rv] by simp
          ultimately show ?thesis using t g Inr by simp
        qed
      qed
    qed
  qed
qed

section \<open>Refinement: the store model of the handler computes the same configuration\<close>

lemma atom_of_is_atom: "atom_of ob = Some j \<Longrightarrow> is_atom j"
  by (cases ob) (auto simp: atom_of_def is_atom_def)

lemma rep_of_atom: "a < length h \<Longrightarrow> atom_of (h ! a) = Some j \<Longrightarrow> rep h a j"
  by (cases "h ! a") (auto simp: atom_of_def)

lemma atom_of_rep: "rep h a j \<Longrightarrow> is_atom j \<Longrightarrow> atom_of (h ! a) = Some j"
  by (cases j) (auto simp: atom_of_def is_atom_def)

lemma rep_atom_frame:
  assumes "rep h a j" and "is_atom j" and "length h \<le> length h'"
    and "\<And>b. b < length h \<Longrightarrow> b \<noteq> ca \<Longrightarrow> h' ! b = h ! b" and "h ! ca = ODict d"
  shows "rep h' a j"
proof -
  have a: "a < length h" using rep_bound [OF assms(1)] .
  have o: "atom_of (h ! a) = Some j" using atom_of_rep [OF assms(1,2)] .
  have "a \<noteq> ca" using o assms(5) by (auto simp: atom_of_def)
  then have "h' ! a = h ! a" using a assms(4) by simp
  then show ?thesis using o a assms(3) rep_of_atom [of a h' j] by simp
qed

lemma rep_items_atom_frame:
  "rep_items h kas cfg \<Longrightarrow> list_all (\<lambda>(k, j). is_atom j) cfg \<Longrightarrow> length h \<le> length h' \<Longrightarrow>
   (\<And>b. b < length h \<Longrightarrow> b \<noteq> ca \<Longrightarrow> h' ! b = h ! b) \<Longrightarrow> h ! ca = ODict d \<Longrightarrow>
   rep_items h' kas cfg"
proof (induction cfg arbitrary: kas)
  case Nil
  then show ?case by simp
next
  case (Cons x cfg)
  obtain k j where x: "x = (k, j)" by (cases x)
  from Cons.prems(1) x have "rep_items h kas ((k, j) # cfg)" by simp
  then obtain a kas' where
    kas: "kas = (k, a) # kas'" and r: "rep h a j" and rs: "rep_items h kas' cfg"
    unfolding rep_items_Cons by blast
  from Cons.prems(2) x have aj: "is_atom j" and as: "list_all (\<lambda>(k, j). is_atom j) cfg"
    by simp_all
  have r': "rep h' a j"
    using rep_atom_frame [OF r aj Cons.prems(3) Cons.prems(4) Cons.prems(5)] by simp
  have rs': "rep_items h' kas' cfg"
    using Cons.IH [OF rs as Cons.prems(3) Cons.prems(4) Cons.prems(5)] by simp
  have "rep_items h' ((k, a) # kas') ((k, j) # cfg)"
    unfolding rep_items_Cons using r' rs' by blast
  then show ?case using kas x by simp
qed

lemma atoms_dict_set:
  "list_all (\<lambda>(k, j). is_atom j) cfg \<Longrightarrow> is_atom j \<Longrightarrow>
   list_all (\<lambda>(k, j). is_atom j) (dict_set k j cfg)"
  by (induction cfg) auto

lemma config_rel_append: "config_rel h ca cfg \<Longrightarrow> config_rel (h @ [ob]) ca cfg"
proof -
  assume c: "config_rel h ca cfg"
  then obtain kas where ca: "ca < length h" and d: "h ! ca = ODict kas"
    and r: "rep_items h kas cfg" and a: "list_all (\<lambda>(k, j). is_atom j) cfg"
    by (auto simp: config_rel_def split: obj.splits)
  have t: "take (length h) (h @ [ob]) = h" by simp
  have "rep_items (h @ [ob]) kas cfg" using rep_mono(3) [OF t r] .
  then show ?thesis using ca d a by (simp add: config_rel_def nth_append)
qed

lemma store_new_eq:
  "h ! ca = ODict kas \<Longrightarrow> ca < length h \<Longrightarrow>
   store_new ca k ob h = (h @ [ob])[ca := ODict (dict_set k (length h) kas)]"
  by (simp add: store_new_def alloc_def store_item_def nth_append)

lemma config_rel_store_new:
  assumes c: "config_rel h ca cfg" and o: "atom_of ob = Some j"
  shows "config_rel (store_new ca k ob h) ca (dict_set k j cfg)"
    and "length (store_new ca k ob h) = Suc (length h)"
    and "take (length h0) h = h0 \<Longrightarrow> length h0 \<le> ca \<Longrightarrow> take (length h0) (store_new ca k ob h) = h0"
proof -
  from c obtain kas where ca: "ca < length h" and d: "h ! ca = ODict kas"
    and r: "rep_items h kas cfg" and a: "list_all (\<lambda>(k, j). is_atom j) cfg"
    by (auto simp: config_rel_def split: obj.splits)
  let ?h' = "(h @ [ob])[ca := ODict (dict_set k (length h) kas)]"
  have e: "store_new ca k ob h = ?h'" using store_new_eq [OF d ca] .
  have len: "length ?h' = Suc (length h)" by simp
  have same: "\<And>b. b < length h \<Longrightarrow> b \<noteq> ca \<Longrightarrow> ?h' ! b = h ! b"
    by (simp add: nth_append)
  have le: "length h \<le> length ?h'" by simp
  have r1: "rep_items ?h' kas cfg"
    using rep_items_atom_frame [OF r a le same d] by simp
  have new: "?h' ! length h = ob" using ca by (simp add: nth_append)
  have r2: "rep ?h' (length h) j"
    using rep_of_atom [of "length h" ?h' j] new o by simp
  have r3: "rep_items ?h' (dict_set k (length h) kas) (dict_set k j cfg)"
    using rep_items_dict_set [OF r1 r2] .
  have at: "list_all (\<lambda>(k, j). is_atom j) (dict_set k j cfg)"
    using atoms_dict_set [OF a atom_of_is_atom [OF o]] .
  have cell: "?h' ! ca = ODict (dict_set k (length h) kas)" using ca by simp
  show "config_rel (store_new ca k ob h) ca (dict_set k j cfg)"
    unfolding e using ca cell r3 at by (simp add: config_rel_def)
  show "length (store_new ca k ob h) = Suc (length h)" unfolding e by simp
  show "take (length h0) h = h0 \<Longrightarrow> length h0 \<le> ca \<Longrightarrow> take (length h0) (store_new ca k ob h) = h0"
  proof -
    assume t: "take (length h0) h = h0" and l: "length h0 \<le> ca"
    have "length h0 \<le> length h" using l ca by simp
    then have "take (length h0) (h @ [ob]) = take (length h0) h" by simp
    then show ?thesis unfolding e using t l by simp
  qed
qed

lemma key_in_rel: "config_rel h ca cfg \<Longrightarrow> key_in h ca k = dict_contains cfg k"
proof -
  assume c: "config_rel h ca cfg"
  then obtain kas where d: "h ! ca = ODict kas" and r: "rep_items h kas cfg"
    by (auto simp: config_rel_def split: obj.splits)
  show ?thesis using d rep_items_keys [OF r] by (simp add: key_in_def dict_contains_def)
qed

lemma lookup_rel:
  assumes c: "config_rel h ca cfg"
  shows "case map_of cfg k of
           None \<Rightarrow> lookup_h h ca k = None
         | Some j \<Rightarrow> (\<exists>a. lookup_h h ca k = Some a \<and> atom_of (h ! a) = Some j)"
proof -
  from c obtain kas where d: "h ! ca = ODict kas" and r: "rep_items h kas cfg"
    and a: "list_all (\<lambda>(k, j). is_atom j) cfg"
    by (auto simp: config_rel_def split: obj.splits)
  show ?thesis
  proof (cases "map_of cfg k")
    case None
    with rep_items_lookup [OF r, of k] d show ?thesis by (simp add: lookup_h_def)
  next
    case (Some j)
    with rep_items_lookup [OF r, of k] obtain b where
      m: "map_of kas k = Some b" and rb: "rep h b j" by auto
    from Some have "(k, j) \<in> set cfg" by (rule map_of_SomeD)
    with a have "is_atom j" by (auto simp: list_all_iff)
    then have "atom_of (h ! b) = Some j" using atom_of_rep [OF rb] by simp
    then show ?thesis using Some m d by (simp add: lookup_h_def)
  qed
qed

lemma type_is_rep:
  assumes r: "rep h pa ps"
  shows "type_is h pa t = (case get_type ps of Inl e \<Rightarrow> Inl e | Inr tv \<Rightarrow> Inr (tv = JStr t))"
proof (cases ps)
  case (JObj kjs)
  with r obtain kas where d: "h ! pa = ODict kas" and ri: "rep_items h kas kjs"
    by (auto split: obj.splits)
  show ?thesis
  proof (cases "map_of kjs ''type''")
    case None
    with rep_items_lookup [OF ri, of "''type''"] have "map_of kas ''type'' = None" by simp
    then show ?thesis using JObj None d by (simp add: type_is_def get_type_def)
  next
    case (Some tv)
    with rep_items_lookup [OF ri, of "''type''"] obtain a where
      m: "map_of kas ''type'' = Some a" and ra: "rep h a tv" by auto
    show ?thesis using JObj Some d m rep_str [OF ra, of t] by (simp add: type_is_def get_type_def)
  qed
qed (use r in \<open>auto simp: type_is_def get_type_def split: obj.splits\<close>)

lemma property_items_h_refines:
  assumes r: "rep h0 sa S" and t: "take (length h0) h = h0"
  shows "\<exists>h' res. property_items_h h sa = (h', res) \<and> take (length h0) h' = h0
     \<and> (\<forall>ca cfg. config_rel h ca cfg \<longrightarrow> config_rel h' ca cfg)
     \<and> (case property_items S of
          Inl e \<Rightarrow> res = Inl e
        | Inr props \<Rightarrow> (\<exists>pas. res = Inr pas \<and> rep_items h0 pas props))"
proof -
  let ?h1 = "h @ [ODict []]"
  have sa: "sa < length h0" using rep_bound [OF r] .
  have l: "length h0 \<le> length h" using extends_length [OF t] .
  have cell: "h ! sa = h0 ! sa" using extends_nth [OF t sa] .
  have t1: "take (length h0) ?h1 = h0" using t l by simp
  have keep: "\<forall>ca cfg. config_rel h ca cfg \<longrightarrow> config_rel ?h1 ca cfg"
    using config_rel_append by blast
  show ?thesis
  proof (cases "\<exists>kjs. S = JObj kjs")
    case False
    then have "\<forall>kas. h0 ! sa \<noteq> ODict kas" using r by (cases S) auto
    then have "property_items_h h sa = (h, Inl AttributeError)"
      using cell by (auto simp: property_items_h_def split: obj.splits)
    moreover have "property_items S = Inl AttributeError"
      using False by (cases S) (auto simp: property_items_def get_properties_def)
    ultimately show ?thesis using t by simp
  next
    case True
    then obtain kjs where S: "S = JObj kjs" by blast
    with r obtain kas where ha: "h0 ! sa = ODict kas" and ri: "rep_items h0 kas kjs"
      by (auto split: obj.splits)
    show ?thesis
    proof (cases "map_of kjs ''properties''")
      case None
      with rep_items_lookup [OF ri, of "''properties''"] have n: "map_of kas ''properties'' = None"
        by simp
      have "property_items S = Inr []"
        using S None by (simp add: property_items_def get_properties_def items_def)
      moreover have "property_items_h h sa = (?h1, Inr [])"
        using cell ha n by (simp add: property_items_h_def alloc_def)
      ultimately show ?thesis using t1 keep by simp
    next
      case (Some pv)
      with rep_items_lookup [OF ri, of "''properties''"] obtain pa where
        m: "map_of kas ''properties'' = Some pa" and rp: "rep h0 pa pv" by auto
      have pa: "pa < length h0" using rep_bound [OF rp] .
      have c2: "?h1 ! pa = h0 ! pa" using pa l extends_nth [OF t pa] by (simp add: nth_append)
      show ?thesis
      proof (cases "\<exists>props. pv = JObj props")
        case False
        then have "\<forall>pas. h0 ! pa \<noteq> ODict pas" using rp by (cases pv) auto
        then have "property_items_h h sa = (?h1, Inl AttributeError)"
          using cell ha m c2 by (auto simp: property_items_h_def alloc_def split: obj.splits)
        moreover have "property_items S = Inl AttributeError"
          using False S Some
          by (cases pv) (auto simp: property_items_def get_properties_def items_def)
        ultimately show ?thesis using t1 keep by simp
      next
        case True
        then obtain props where pv: "pv = JObj props" by blast
        with rp obtain pas where hp: "h0 ! pa = ODict pas" and rps: "rep_items h0 pas props"
          by (auto split: obj.splits)
        have "property_items_h h sa = (?h1, Inr pas)"
          using cell ha m c2 hp by (simp add: property_items_h_def alloc_def)
        moreover have "property_items S = Inr props"
          using S Some pv by (simp add: property_items_def get_properties_def items_def)
        ultimately show ?thesis using t1 keep rps by simp
      qed
    qed
  qed
qed

lemma boolean_loop_h_refines:
  "rep_items h0 pas props \<Longrightarrow> take (length h0) h = h0 \<Longrightarrow> length h0 \<le> ca \<Longrightarrow>
   config_rel h ca cfg \<Longrightarrow>
   \<exists>h' res. boolean_loop_h pas ca h = (h', res) \<and> take (length h0) h' = h0
     \<and> (case boolean_loop props cfg of
          Inl e \<Rightarrow> res = Inl e
        | Inr cfg' \<Rightarrow> res = Inr () \<and> config_rel h' ca cfg')"
proof (induction props arbitrary: pas h cfg)
  case Nil
  then show ?case by simp
next
  case (Cons x props)
  obtain k ps where x: "x = (k, ps)" by (cases x)
  from Cons.prems(1) x have "rep_items h0 pas ((k, ps) # props)" by simp
  then obtain pa pas' where
    pas: "pas = (k, pa) # pas'" and r0: "rep h0 pa ps" and rs: "rep_items h0 pas' props"
    unfolding rep_items_Cons by blast
  have r: "rep h pa ps" using rep_mono(1) [OF Cons.prems(2) r0] .
  note ti = type_is_rep [OF r, of "''boolean''"]
  show ?case
  proof (cases "get_type ps")
    case (Inl e)
    then show ?thesis using ti pas x Cons.prems(2) by simp
  next
    case (Inr tv)
    show ?thesis
    proof (cases "tv = JStr ''boolean''")
      case False
      from Cons.IH [OF rs Cons.prems(2,3,4)] show ?thesis
        using ti pas x Inr False by simp
    next
      case True
      let ?b = "dict_contains cfg k"
      let ?h1 = "store_new ca k (OBool (key_in h ca k)) h"
      have kb: "key_in h ca k = ?b" using key_in_rel [OF Cons.prems(4)] .
      have o: "atom_of (OBool ?b :: 'a obj) = Some (JBool ?b)" by (simp add: atom_of_def)
      have c1: "config_rel ?h1 ca (dict_set k (JBool ?b) cfg)"
        using config_rel_store_new(1) [OF Cons.prems(4) o, of k] kb by simp
      have t1: "take (length h0) ?h1 = h0"
        using config_rel_store_new(3) [OF Cons.prems(4) o Cons.prems(2,3), of k] kb by simp
      from Cons.IH [OF rs t1 Cons.prems(3) c1] show ?thesis
        using ti pas x Inr True by simp
    qed
  qed
qed

lemma numeric_loop_h_refines:
  "rep_items h0 pas props \<Longrightarrow> take (length h0) h = h0 \<Longrightarrow> length h0 \<le> ca \<Longrightarrow>
   config_rel h ca cfg \<Longrightarrow>
   \<exists>h' res. numeric_loop_h py_int py_float pas ca h = (h', res) \<and> take (length h0) h' = h0
     \<and> (case numeric_loop py_int py_float props cfg of
          Inl e \<Rightarrow> res = Inl e
        | Inr cfg' \<Rightarrow> res = Inr () \<and> config_rel h' ca cfg')"
proof (induction props arbitrary: pas h cfg)
  case Nil
  then show ?case by simp
next
  case (Cons x props)
  obtain k ps where x: "x = (k, ps)" by (cases x)
  from Cons.prems(1) x have "rep_items h0 pas ((k, ps) # props)" by simp
  then obtain pa pas' where
    pas: "pas = (k, pa) # pas'" and r0: "rep h0 pa ps" and rs: "rep_items h0 pas' props"
    unfolding rep_items_Cons by blast
  have r: "rep h pa ps" using rep_mono(1) [OF Cons.prems(2) r0] .
  note ti = type_is_rep [OF r, of "''integer''"]
  note tn = type_is_rep [OF r, of "''number''"]
  note same = Cons.IH [OF rs Cons.prems(2,3,4)]
  show ?case
  proof (cases "map_of cfg k")
    case None
    with lookup_rel [OF Cons.prems(4), of k] have "lookup_h h ca k = None" by simp
    then show ?thesis using same pas x None by simp
  next
    case (Some j)
    with lookup_rel [OF Cons.prems(4), of k] obtain a where
      lk: "lookup_h h ca k = Some a" and at: "atom_of (h ! a) = Some j" by auto
    have ci: "call_builtin py_int h a = py_int j" using at by (simp add: call_builtin_def)
    have cf: "call_builtin py_float h a = py_float j" using at by (simp add: call_builtin_def)
    show ?thesis
    proof (cases "get_type ps")
      case (Inl e)
      then show ?thesis using ti pas x Some lk Cons.prems(2) by simp
    next
      case (Inr tv)
      show ?thesis
      proof (cases "tv = JStr ''integer''")
        case True
        show ?thesis
        proof (cases "py_int j")
          case (Inl e)
          show ?thesis
          proof (cases "caught e")
            case True
            then show ?thesis
              using same ti pas x Some lk ci Inl \<open>get_type ps = Inr tv\<close> \<open>tv = JStr ''integer''\<close>
              by simp
          next
            case False
            then show ?thesis
              using ti pas x Some lk ci Inl \<open>get_type ps = Inr tv\<close> \<open>tv = JStr ''integer''\<close>
                Cons.prems(2)
              by simp
          qed
        next
          case (Inr n)
          let ?h1 = "store_new ca k (OInt n) h"
          have o: "atom_of (OInt n :: 'a obj) = Some (JInt n)" by (simp add: atom_of_def)
          have c1: "config_rel ?h1 ca (dict_set k (JInt n) cfg)"
            using config_rel_store_new(1) [OF Cons.prems(4) o] .
          have t1: "take (length h0) ?h1 = h0"
            using config_rel_store_new(3) [OF Cons.prems(4) o Cons.prems(2,3)] .
          from Cons.IH [OF rs t1 Cons.prems(3) c1] show ?thesis
            using ti pas x Some lk ci Inr \<open>get_type ps = Inr tv\<close> True by simp
        qed
      next
        case False
        note ni = False
        show ?thesis
        proof (cases "tv = JStr ''number''")
          case False
          then show ?thesis
            using same ti tn pas x Some lk ni \<open>get_type ps = Inr tv\<close> by simp
        next
          case True
          show ?thesis
          proof (cases "py_float j")
            case (Inl e)
            show ?thesis
            proof (cases "caught e")
              case True
              then show ?thesis
                using same ti tn pas x Some lk cf Inl ni \<open>get_type ps = Inr tv\<close> \<open>tv = JStr ''number''\<close>
                by simp
            next
              case False
              then show ?thesis
                using ti tn pas x Some lk cf Inl ni \<open>get_type ps = Inr tv\<close> \<open>tv = JStr ''number''\<close>
                  Cons.prems(2)
                by simp
            qed
          next
            case (Inr y)
            let ?h1 = "store_new ca k (OFloat y) h"
            have o: "atom_of (OFloat y) = Some (JFloat y)" by (simp add: atom_of_def)
            have c1: "config_rel ?h1 ca (dict_set k (JFloat y) cfg)"
              using config_rel_store_new(1) [OF Cons.prems(4) o] .
            have t1: "take (length h0) ?h1 = h0"
              using config_rel_store_new(3) [OF Cons.prems(4) o Cons.prems(2,3)] .
            from Cons.IH [OF rs t1 Cons.prems(3) c1] show ?thesis
              using ti tn pas x Some lk cf Inr ni \<open>get_type ps = Inr tv\<close> True by simp
          qed
        qed
      qed
    qed
  qed
qed

lemma config_rel_rep: "config_rel h ca cfg \<Longrightarrow> rep h ca (JObj cfg)"
  by (auto simp: config_rel_def split: obj.splits)

lemma atoms_form: "list_all (\<lambda>(k, j). is_atom j) (map (\<lambda>(k, v). (k, JStr v)) R)"
  by (induction R) (auto simp: is_atom_def)

lemma submit_config_h_refines:
  assumes rs: "rep h sa S" and rf: "rep h fa (form_json R)"
  shows "\<exists>h' res. submit_config_h py_int py_float h sa fa = (h', res) \<and> take (length h) h' = h
     \<and> (case submit_config py_int py_float S R of
          Inl e \<Rightarrow> res = Inl e
        | Inr cfg \<Rightarrow> (\<exists>c. res = Inr c \<and> rep h' c (JObj cfg)))"
proof -
  let ?cfg0 = "map (\<lambda>(k, v). (k, JStr v)) R"
  let ?ca = "length h"
  from rf obtain fd where fa: "fa < length h" and hf: "h ! fa = ODict fd"
    and rfd: "rep_items h fd ?cfg0"
    by (auto simp: form_json_def split: obj.splits)
  let ?h1 = "h @ [ODict fd]"
  have t1: "take (length h) ?h1 = h" by simp
  have c1: "config_rel ?h1 ?ca ?cfg0"
    using rep_mono(3) [OF t1 rfd] atoms_form [of R] by (simp add: config_rel_def)
  have le: "length h \<le> ?ca" by simp
  have start: "submit_config_h py_int py_float h sa fa =
    (case property_items_h ?h1 sa of
             (h2, Inl e) \<Rightarrow> (h2, Inl e)
           | (h2, Inr props) \<Rightarrow>
               (case boolean_loop_h props ?ca h2 of
                  (h3, Inl e) \<Rightarrow> (h3, Inl e)
                | (h3, Inr u) \<Rightarrow>
                    (case property_items_h h3 sa of
                       (h4, Inl e) \<Rightarrow> (h4, Inl e)
                     | (h4, Inr props') \<Rightarrow>
                         (case numeric_loop_h py_int py_float props' ?ca h4 of
                            (h5, Inl e) \<Rightarrow> (h5, Inl e)
                          | (h5, Inr u') \<Rightarrow> (h5, Inr ?ca)))))"
    using hf by (simp add: submit_config_h_def alloc_def)
  from property_items_h_refines [OF rs t1] obtain h2 r2 where
    p2: "property_items_h ?h1 sa = (h2, r2)" and t2: "take (length h) h2 = h"
    and k2: "\<forall>ca cfg. config_rel ?h1 ca cfg \<longrightarrow> config_rel h2 ca cfg"
    and v2: "case property_items S of
          Inl e \<Rightarrow> r2 = Inl e
        | Inr props \<Rightarrow> (\<exists>pas. r2 = Inr pas \<and> rep_items h pas props)"
    by blast
  show ?thesis
  proof (cases "property_items S")
    case (Inl e)
    with v2 have "r2 = Inl e" by simp
    then have "submit_config_h py_int py_float h sa fa = (h2, Inl e)"
      using start p2 by simp
    moreover have "submit_config py_int py_float S R = Inl e"
      using Inl by (simp add: submit_config_def)
    ultimately show ?thesis using t2 by simp
  next
    case (Inr props)
    with v2 obtain pas where r2: "r2 = Inr pas" and rp: "rep_items h pas props" by auto
    have c2: "config_rel h2 ?ca ?cfg0" using k2 c1 by blast
    from boolean_loop_h_refines [OF rp t2 le c2] obtain h3 r3 where
      b3: "boolean_loop_h pas ?ca h2 = (h3, r3)" and t3: "take (length h) h3 = h"
      and v3: "case boolean_loop props ?cfg0 of
          Inl e \<Rightarrow> r3 = Inl e
        | Inr cfg' \<Rightarrow> r3 = Inr () \<and> config_rel h3 ?ca cfg'"
      by blast
    show ?thesis
    proof (cases "boolean_loop props ?cfg0")
      case (Inl e)
      with v3 have "r3 = Inl e" by simp
      then have "submit_config_h py_int py_float h sa fa = (h3, Inl e)"
        using start p2 r2 b3 by simp
      moreover have "submit_config py_int py_float S R = Inl e"
        using \<open>property_items S = Inr props\<close> Inl by (simp add: submit_config_def)
      ultimately show ?thesis using t3 by simp
    next
      case (Inr cfg1)
      with v3 have r3: "r3 = Inr ()" and c3: "config_rel h3 ?ca cfg1" by simp_all
      from property_items_h_refines [OF rs t3] obtain h4 r4 where
        p4: "property_items_h h3 sa = (h4, r4)" and t4: "take (length h) h4 = h"
        and k4: "\<forall>ca cfg. config_rel h3 ca cfg \<longrightarrow> config_rel h4 ca cfg"
        and v4: "case property_items S of
          Inl e \<Rightarrow> r4 = Inl e
        | Inr props \<Rightarrow> (\<exists>pas. r4 = Inr pas \<and> rep_items h pas props)"
        by blast
      from v4 \<open>property_items S = Inr props\<close> obtain pas' where
        r4: "r4 = Inr pas'" and rp': "rep_items h pas' props" by auto
      have c4: "config_rel h4 ?ca cfg1" using k4 c3 by blast
      from numeric_loop_h_refines [OF rp' t4 le c4, of py_int py_float] obtain h5 r5 where
        n5: "numeric_loop_h py_int py_float pas' ?ca h4 = (h5, r5)"
        and t5: "take (length h) h5 = h"
        and v5: "case numeric_loop py_int py_float props cfg1 of
          Inl e \<Rightarrow> r5 = Inl e
        | Inr cfg' \<Rightarrow> r5 = Inr () \<and> config_rel h5 ?ca cfg'"
        by blast
      have val: "submit_config py_int py_float S R = numeric_loop py_int py_float props cfg1"
        using \<open>property_items S = Inr props\<close> Inr by (simp add: submit_config_def)
      show ?thesis
      proof (cases "numeric_loop py_int py_float props cfg1")
        case (Inl e)
        with v5 have "r5 = Inl e" by simp
        then have "submit_config_h py_int py_float h sa fa = (h5, Inl e)"
          using start p2 r2 b3 r3 p4 r4 n5 by simp
        then show ?thesis using t5 val Inl by simp
      next
        case (Inr cfg2)
        with v5 have r5: "r5 = Inr ()" and c5: "config_rel h5 ?ca cfg2" by simp_all
        have "submit_config_h py_int py_float h sa fa = (h5, Inr ?ca)"
          using start p2 r2 b3 r3 p4 r4 n5 r5 by simp
        then show ?thesis using t5 val Inr config_rel_rep [OF c5] by simp
      qed
    qed
  qed
qed

lemma take_take_le:
  assumes t1: "take (length h) h1 = h" and t2: "take (length h1) h2 = h1"
  shows "take (length h) h2 = h"
proof -
  have l: "length h \<le> length h1" using extends_length [OF t1] .
  have "take (length h) h2 = take (length h) (take (length h1) h2)"
    using l by (simp add: min_def)
  then show ?thesis using t1 t2 by simp
qed

text \<open>
  Claim C7.  Both operations are functions of their inputs and change none of them,
  stated on the store.  When the object at \<open>a\<close> represents the schema \<open>S\<close>, two
  calls of \<^verbatim>\<open>get_default_values_from_schema\<close> in a row return two results that represent
  the same value, the one that the function on values computes (or raise the same
  exception); every object that existed before the calls is unchanged, and \<open>a\<close> still
  represents \<open>S\<close>.  When moreover the object at \<open>fa\<close> represents the posted form
  \<open>R\<close>, the same holds for two runs of the handler's computation: both results
  represent the configuration that the function on values computes from \<open>S\<close> and
  \<open>R\<close> alone, whatever else the store holds, and the schema, the form and every other
  object that existed before are unchanged.
\<close>
theorem operations_pure_on_store:
  "(rep h a S \<longrightarrow>
      (\<exists>h1 r1 h2 r2.
         get_default_values_from_schema_h h a = (h1, r1)
       \<and> get_default_values_from_schema_h h1 a = (h2, r2)
       \<and> take (length h) h2 = h
       \<and> rep h2 a S
       \<and> (case get_default_values_from_schema S of
            Inl e \<Rightarrow> r1 = Inl e \<and> r2 = Inl e
          | Inr vals \<Rightarrow>
              (\<exists>v1 v2. r1 = Inr v1 \<and> r2 = Inr v2
                 \<and> rep h2 v1 (JObj vals) \<and> rep h2 v2 (JObj vals)))))
   \<and> (rep h a S \<and> rep h fa (form_json R) \<longrightarrow>
      (\<exists>h1 r1 h2 r2.
         submit_config_h py_int py_float h a fa = (h1, r1)
       \<and> submit_config_h py_int py_float h1 a fa = (h2, r2)
       \<and> take (length h) h2 = h
       \<and> rep h2 a S \<and> rep h2 fa (form_json R)
       \<and> (case submit_config py_int py_float S R of
            Inl e \<Rightarrow> r1 = Inl e \<and> r2 = Inl e
          | Inr cfg \<Rightarrow>
              (\<exists>c1 c2. r1 = Inr c1 \<and> r2 = Inr c2
                 \<and> rep h2 c1 (JObj cfg) \<and> rep h2 c2 (JObj cfg)))))"
proof (intro conjI impI)
  assume r: "rep h a S"
  from heap_call_refines [OF r] obtain h1 r1 where
    c1: "get_default_values_from_schema_h h a = (h1, r1)" and t1: "take (length h) h1 = h"
    and v1: "case get_default_values_from_schema S of
          Inl e \<Rightarrow> r1 = Inl e
        | Inr vals \<Rightarrow> (\<exists>va. r1 = Inr va \<and> rep h1 va (JObj vals))"
    by blast
  have r1: "rep h1 a S" using rep_mono(1) [OF t1 r] .
  from heap_call_refines [OF r1] obtain h2 r2 where
    c2: "get_default_values_from_schema_h h1 a = (h2, r2)" and t2: "take (length h1) h2 = h1"
    and v2: "case get_default_values_from_schema S of
          Inl e \<Rightarrow> r2 = Inl e
        | Inr vals \<Rightarrow> (\<exists>va. r2 = Inr va \<and> rep h2 va (JObj vals))"
    by blast
  have t: "take (length h) h2 = h" using take_take_le [OF t1 t2] .
  have r2: "rep h2 a S" using rep_mono(1) [OF t2 r1] .
  have v: "case get_default_values_from_schema S of
            Inl e \<Rightarrow> r1 = Inl e \<and> r2 = Inl e
          | Inr vals \<Rightarrow>
              (\<exists>v1 v2. r1 = Inr v1 \<and> r2 = Inr v2
                 \<and> rep h2 v1 (JObj vals) \<and> rep h2 v2 (JObj vals))"
  proof (cases "get_default_values_from_schema S")
    case (Inl e)
    then show ?thesis using v1 v2 by simp
  next
    case (Inr vals)
    with v1 v2 obtain va vb where "r1 = Inr va" "rep h1 va (JObj vals)" "r2 = Inr vb" "rep h2 vb (JObj vals)"
      by auto
    then show ?thesis using Inr rep_mono(1) [OF t2, of va "JObj vals"] by simp
  qed
  from c1 c2 t r2 v show "\<exists>h1 r1 h2 r2.
         get_default_values_from_schema_h h a = (h1, r1)
       \<and> get_default_values_from_schema_h h1 a = (h2, r2)
       \<and> take (length h) h2 = h
       \<and> rep h2 a S
       \<and> (case get_default_values_from_schema S of
            Inl e \<Rightarrow> r1 = Inl e \<and> r2 = Inl e
          | Inr vals \<Rightarrow>
              (\<exists>v1 v2. r1 = Inr v1 \<and> r2 = Inr v2
                 \<and> rep h2 v1 (JObj vals) \<and> rep h2 v2 (JObj vals)))"
    by blast
next
  assume "rep h a S \<and> rep h fa (form_json R)"
  then have r: "rep h a S" and f: "rep h fa (form_json R)" by simp_all
  from submit_config_h_refines [OF r f, of py_int py_float] obtain h1 r1 where
    c1: "submit_config_h py_int py_float h a fa = (h1, r1)" and t1: "take (length h) h1 = h"
    and v1: "case submit_config py_int py_float S R of
          Inl e \<Rightarrow> r1 = Inl e
        | Inr cfg \<Rightarrow> (\<exists>c. r1 = Inr c \<and> rep h1 c (JObj cfg))"
    by blast
  have r1: "rep h1 a S" using rep_mono(1) [OF t1 r] .
  have f1: "rep h1 fa (form_json R)" using rep_mono(1) [OF t1 f] .
  from submit_config_h_refines [OF r1 f1, of py_int py_float] obtain h2 r2 where
    c2: "submit_config_h py_int py_float h1 a fa = (h2, r2)" and t2: "take (length h1) h2 = h1"
    and v2: "case submit_config py_int py_float S R of
          Inl e \<Rightarrow> r2 = Inl e
        | Inr cfg \<Rightarrow> (\<exists>c. r2 = Inr c \<and> rep h2 c (JObj cfg))"
    by blast
  have t: "take (length h) h2 = h" using take_take_le [OF t1 t2] .
  have r2: "rep h2 a S" using rep_mono(1) [OF t2 r1] .
  have f2: "rep h2 fa (form_json R)" using rep_mono(1) [OF t2 f1] .
  have v: "case submit_config py_int py_float S R of
            Inl e \<Rightarrow> r1 = Inl e \<and> r2 = Inl e
          | Inr cfg \<Rightarrow>
              (\<exists>c1 c2. r1 = Inr c1 \<and> r2 = Inr c2
                 \<and> rep h2 c1 (JObj cfg) \<and> rep h2 c2 (JObj cfg))"
  proof (cases "submit_config py_int py_float S R")
    case (Inl e)
    then show ?thesis using v1 v2 by simp
  next
    case (Inr cfg)
    with v1 v2 obtain ca cb where "r1 = Inr ca" "rep h1 ca (JObj cfg)" "r2 = Inr cb" "rep h2 cb (JObj cfg)"
      by auto
    then show ?thesis using Inr rep_mono(1) [OF t2, of ca "JObj cfg"] by simp
  qed
  from c1 c2 t r2 f2 v show "\<exists>h1 r1 h2 r2.
         submit_config_h py_int py_float h a fa = (h1, r1)
       \<and> submit_config_h py_int py_float h1 a fa = (h2, r2)
       \<and> take (length h) h2 = h
       \<and> rep h2 a S \<and> rep h2 fa (form_json R)
       \<and> (case submit_config py_int py_float S R of
            Inl e \<Rightarrow> r1 = Inl e \<and> r2 = Inl e
          | Inr cfg \<Rightarrow>
              (\<exists>c1 c2. r1 = Inr c1 \<and> r2 = Inr c2
                 \<and> rep h2 c1 (JObj cfg) \<and> rep h2 c2 (JObj cfg)))"
    by blast
qed

lemma form_heap_schema: "rep form_heap 5 form_schema"
  by (simp add: form_heap_def form_schema_def)

lemma form_heap_form: "rep form_heap 7 (form_json [(''n'', ''42'')])"
  by (simp add: form_heap_def form_json_def)

lemma form_defaults: "get_default_values_from_schema form_schema = Inr []"
  by (simp add: form_schema_def get_default_values_from_schema_def property_items_def
      get_properties_def items_def contains_default_def dict_contains_def)

lemma form_config:
  "submit_config sample_int sample_float form_schema [(''n'', ''42'')]
     = Inr [(''n'', JInt 42), (''on'', JBool False)]"
  by (simp add: form_schema_def submit_config_def property_items_def get_properties_def
      items_def get_type_def dict_contains_def sample_int_def decimal_def digit_of_def)

theorem operations_pure_on_store_witness:
  "rep form_heap 5 form_schema \<and> rep form_heap 7 (form_json [(''n'', ''42'')])
   \<and> (\<exists>h1 v1 h2 v2.
         get_default_values_from_schema_h form_heap 5 = (h1, Inr v1)
       \<and> get_default_values_from_schema_h h1 5 = (h2, Inr v2)
       \<and> take (length form_heap) h2 = form_heap
       \<and> rep h2 5 form_schema
       \<and> rep h2 v1 (JObj []) \<and> rep h2 v2 (JObj []))
   \<and> (\<exists>h1 c1 h2 c2.
         submit_config_h sample_int sample_float form_heap 5 7 = (h1, Inr c1)
       \<and> submit_config_h sample_int sample_float h1 5 7 = (h2, Inr c2)
       \<and> take (length form_heap) h2 = form_heap
       \<and> rep h2 5 form_schema \<and> rep h2 7 (form_json [(''n'', ''42'')])
       \<and> rep h2 c1 (JObj [(''n'', JInt 42), (''on'', JBool False)])
       \<and> rep h2 c2 (JObj [(''n'', JInt 42), (''on'', JBool False)]))"
proof -
  note t = operations_pure_on_store [of form_heap 5 form_schema 7 "[(''n'', ''42'')]"
      sample_int sample_float]
  from t form_heap_schema have a: "\<exists>h1 r1 h2 r2.
         get_default_values_from_schema_h form_heap 5 = (h1, r1)
       \<and> get_default_values_from_schema_h h1 5 = (h2, r2)
       \<and> take (length form_heap) h2 = form_heap
       \<and> rep h2 5 form_schema
       \<and> (\<exists>v1 v2. r1 = Inr v1 \<and> r2 = Inr v2
                 \<and> rep h2 v1 (JObj []) \<and> rep h2 v2 (JObj []))"
    unfolding form_defaults by simp
  from t form_heap_schema form_heap_form have b: "\<exists>h1 r1 h2 r2.
         submit_config_h sample_int sample_float form_heap 5 7 = (h1, r1)
       \<and> submit_config_h sample_int sample_float h1 5 7 = (h2, r2)
       \<and> take (length form_heap) h2 = form_heap
       \<and> rep h2 5 form_schema \<and> rep h2 7 (form_json [(''n'', ''42'')])
       \<and> (\<exists>c1 c2. r1 = Inr c1 \<and> r2 = Inr c2
                 \<and> rep h2 c1 (JObj [(''n'', JInt 42), (''on'', JBool False)])
                 \<and> rep h2 c2 (JObj [(''n'', JInt 42), (''on'', JBool False)]))"
    unfolding form_config by simp
  from a b form_heap_schema form_heap_form show ?thesis by blast
qed

end
